theory Spec2Isabelle
  imports Complex_Main "HOL-Library.Word" "HOL-Library.Multiset"
begin

section \<open>Decoded JSON values and Python's view of them\<close>

text \<open>
  The ingestion script works on values decoded from JSON by the incremental parser:
  \<open>None\<close>, booleans, numbers, strings, lists and dicts. The parser decodes a number
  written without fraction and exponent to an \<open>int\<close> and every other number to a
  \<open>Decimal\<close>, a rational here. A dict is an association list read with \<open>map_of\<close>;
  \<open>dict.get\<close> returns \<open>None\<close> for a key that is not there, which is the same value a
  JSON \<open>null\<close> decodes to.
\<close>

datatype json =
    JNull
  | JBool bool
  | JInt int
  | JDec rat
  | JStr string
  | JList "json list"
  | JObj "(string \<times> json) list"

type_synonym entity = "(string \<times> json) list"

text \<open>\<open>d.get(k)\<close> on a dict.\<close>

definition dict_get :: "(string \<times> json) list \<Rightarrow> string \<Rightarrow> json" where
  "dict_get d k = (case map_of d k of None \<Rightarrow> JNull | Some v \<Rightarrow> v)"

text \<open>Python truthiness: what \<open>not x\<close>, \<open>x or y\<close> and \<open>x and y\<close> test.\<close>

fun truthy :: "json \<Rightarrow> bool" where
  "truthy JNull = False"
| "truthy (JBool b) = b"
| "truthy (JInt i) = (i \<noteq> 0)"
| "truthy (JDec d) = (d \<noteq> 0)"
| "truthy (JStr s) = (s \<noteq> [])"
| "truthy (JList xs) = (xs \<noteq> [])"
| "truthy (JObj d) = (d \<noteq> [])"

text \<open>\<open>x or y\<close>.\<close>

definition py_or :: "json \<Rightarrow> json \<Rightarrow> json" where
  "py_or x y = (if truthy x then x else y)"

datatype error = AttributeError | JSONError | Neo4jError | DriverError | OverflowError | ValueError

section \<open>The streaming source reader (ingest.py)\<close>

type_synonym byte = "8 word"

text \<open>The loop of \<open>_first_non_ws_byte\<close> over the chunk that was read.\<close>

fun first_non_ws :: "byte list \<Rightarrow> byte option" where
  "first_non_ws [] = None"
| "first_non_ws (b # chunk) =
     (if b = 9 \<or> b = 10 \<or> b = 13 \<or> b = 32 then first_non_ws chunk else Some b)"

text \<open>\<open>f.read(peek_bytes)\<close> returns at most \<open>peek_bytes\<close> bytes from the start of the file.\<close>

definition first_non_ws_byte :: "byte list \<Rightarrow> nat \<Rightarrow> byte option" where
  "first_non_ws_byte file peek_bytes = first_non_ws (take peek_bytes file)"

text \<open>The \<open>isinstance(entity, dict)\<close> test on each value the parser yields.\<close>

fun dicts :: "json list \<Rightarrow> entity list" where
  "dicts [] = []"
| "dicts (JObj d # vs) = d # dicts vs"
| "dicts (v # vs) = dicts vs"

text \<open>
  \<open>iter_entities\<close>. The incremental parser is a library: \<open>ijson_items prefix
  multiple_values file\<close> stands for \<open>ijson.items(f, prefix, multiple_values=...)\<close> and
  gives the values it yields together with the exception it raises after them, if any.
  The generator yields the dicts among them and then raises the same exception.
\<close>

definition iter_entities ::
  "(string \<Rightarrow> bool \<Rightarrow> byte list \<Rightarrow> json list \<times> error option) \<Rightarrow> byte list
     \<Rightarrow> entity list \<times> error option" where
  "iter_entities ijson_items file =
     (case first_non_ws_byte file 4096 of
        None \<Rightarrow> ([], None)
      | Some first \<Rightarrow>
          if first = 91
          then (case ijson_items ''item'' False file of (vs, stop) \<Rightarrow> (dicts vs, stop))
          else (case ijson_items [] True file of (vs, stop) \<Rightarrow> (dicts vs, stop)))"

section \<open>The record classifier (ingest.py)\<close>

text \<open>
  \<open>prop_first\<close>: \<open>props = entity.get("properties") or {}\<close>, then \<open>props.get(key)\<close>.
  Of the decoded values only a dict has a \<open>get\<close> method, so a truthy \<open>properties\<close>
  value that is not a dict raises \<open>AttributeError\<close>. The first element is returned
  only for a non-empty list.
\<close>

definition prop_first :: "entity \<Rightarrow> string \<Rightarrow> error + json" where
  "prop_first entity key =
     (case py_or (dict_get entity ''properties'') (JObj []) of
        JObj props \<Rightarrow>
          (case dict_get props key of
             JList (v # vs) \<Rightarrow> Inr v
           | _ \<Rightarrow> Inr JNull)
      | _ \<Rightarrow> Inl AttributeError)"

record node_row =
  row_id :: json
  row_schema :: json
  row_name :: json
  row_datasets :: json
  row_modified_at :: json

definition to_node_row :: "entity \<Rightarrow> error + node_row" where
  "to_node_row entity =
     (case prop_first entity ''name'' of
        Inl e \<Rightarrow> Inl e
      | Inr name \<Rightarrow>
          Inr \<lparr> row_id = dict_get entity ''id'',
                row_schema = dict_get entity ''schema'',
                row_name = name,
                row_datasets = py_or (dict_get entity ''datasets'') (JList []),
                row_modified_at =
                  py_or (dict_get entity ''modifiedAt'') (dict_get entity ''modified_at'') \<rparr>)"

datatype rel_type = DIRECTORSHIP | OWNERSHIP

record rel_row =
  rel_id :: json
  rel_schema :: json
  rel_source_id :: json
  rel_target_id :: json
  rel_datasets :: json
  rel_modified_at :: json

text \<open>The tail of \<open>to_rel_row\<close>, after the schema has chosen the two property keys.\<close>

definition rel_row_of :: "entity \<Rightarrow> rel_type \<Rightarrow> json \<Rightarrow> json \<Rightarrow> (rel_type \<times> rel_row) option" where
  "rel_row_of entity rel_type source_id target_id =
     (if \<not> truthy source_id \<or> \<not> truthy target_id then None
      else Some (rel_type,
             \<lparr> rel_id = dict_get entity ''id'',
               rel_schema = dict_get entity ''schema'',
               rel_source_id = source_id,
               rel_target_id = target_id,
               rel_datasets = py_or (dict_get entity ''datasets'') (JList []),
               rel_modified_at =
                 py_or (dict_get entity ''modifiedAt'') (dict_get entity ''modified_at'') \<rparr>))"

definition to_rel_row :: "entity \<Rightarrow> error + (rel_type \<times> rel_row) option" where
  "to_rel_row entity =
     (let schema = dict_get entity ''schema'' in
      if schema = JStr ''Directorship'' then
        (case prop_first entity ''director'' of
           Inl e \<Rightarrow> Inl e
         | Inr source_id \<Rightarrow>
             (case prop_first entity ''organization'' of
                Inl e \<Rightarrow> Inl e
              | Inr target_id \<Rightarrow> Inr (rel_row_of entity DIRECTORSHIP source_id target_id)))
      else if schema = JStr ''Ownership'' then
        (case prop_first entity ''owner'' of
           Inl e \<Rightarrow> Inl e
         | Inr source_id \<Rightarrow>
             (case prop_first entity ''asset'' of
                Inl e \<Rightarrow> Inl e
              | Inr target_id \<Rightarrow> Inr (rel_row_of entity OWNERSHIP source_id target_id)))
      else Inr None)"

datatype label = Company | Person

text \<open>
  The part of the body of the loop of \<open>import_nodes\<close> that decides what one entity
  contributes: nothing for another schema, nothing for a falsy identifier, otherwise a
  row for the batch of its label.
\<close>

definition import_nodes_row :: "entity \<Rightarrow> error + (label \<times> node_row) option" where
  "import_nodes_row entity =
     (let schema = dict_get entity ''schema'' in
      if schema \<noteq> JStr ''Company'' \<and> schema \<noteq> JStr ''Person'' then Inr None
      else
        (case to_node_row entity of
           Inl e \<Rightarrow> Inl e
         | Inr row \<Rightarrow>
             if \<not> truthy (row_id row) then Inr None
             else if schema = JStr ''Company'' then Inr (Some (Company, row))
             else Inr (Some (Person, row))))"

text \<open>The same for the loop of \<open>import_relationships\<close>.\<close>

definition import_relationships_row :: "entity \<Rightarrow> error + (rel_type \<times> rel_row) option" where
  "import_relationships_row entity =
     (let schema = dict_get entity ''schema'' in
      if schema \<noteq> JStr ''Directorship'' \<and> schema \<noteq> JStr ''Ownership'' then Inr None
      else
        (case to_rel_row entity of
           Inl e \<Rightarrow> Inl e
         | Inr None \<Rightarrow> Inr None
         | Inr (Some (rel_type, row)) \<Rightarrow>
             if \<not> truthy (rel_id row) then Inr None
             else Inr (Some (rel_type, row))))"

section \<open>The graph store and the upsert statements\<close>

text \<open>
  The store holds labelled nodes and typed, directed relationships. Nodes are never
  deleted, so the position of a node in the node list is its identity, and a
  relationship names its two ends by position. A property that is not set reads as
  \<open>null\<close>, and setting a property to \<open>null\<close> removes it, so \<open>JNull\<close> stands for both.
  The store's checks on property value types are not part of the model.
\<close>

record node =
  n_label :: label
  n_ftm_id :: json
  n_schema :: json
  n_name :: json
  n_datasets :: json
  n_modified_at :: json

record rel =
  r_type :: rel_type
  r_src :: nat
  r_tgt :: nat
  r_ftm_id :: json
  r_schema :: json
  r_datasets :: json
  r_modified_at :: json

record store =
  nodes :: "node list"
  rels :: "rel list"

text \<open>A property map in a pattern, \<open>{ftm_id: v}\<close>: equality, which \<open>null\<close> never satisfies.\<close>

definition prop_eq :: "json \<Rightarrow> json \<Rightarrow> bool" where
  "prop_eq a b = (a \<noteq> JNull \<and> b \<noteq> JNull \<and> a = b)"

text \<open>
  \<open>MERGE pattern SET assignments\<close> for one row: when elements match the pattern the
  assignments are applied to each of them, otherwise one element is created from the
  pattern and the assignments are applied to it.
\<close>

definition merge_set :: "('r \<Rightarrow> 'x \<Rightarrow> bool) \<Rightarrow> ('r \<Rightarrow> 'x \<Rightarrow> 'x) \<Rightarrow> ('r \<Rightarrow> 'x) \<Rightarrow> 'r \<Rightarrow> 'x list \<Rightarrow> 'x list" where
  "merge_set matches assign create r xs =
     (if \<exists>x \<in> set xs. matches r x
      then map (\<lambda>x. if matches r x then assign r x else x) xs
      else xs @ [assign r (create r)])"

subsection \<open>NODE_CYPHER\<close>

text \<open>\<open>(n:Label {ftm_id: row.id})\<close>\<close>

definition node_matches :: "label \<times> node_row \<Rightarrow> node \<Rightarrow> bool" where
  "node_matches lr n = (n_label n = fst lr \<and> prop_eq (n_ftm_id n) (row_id (snd lr)))"

definition node_create :: "label \<times> node_row \<Rightarrow> node" where
  "node_create lr =
     \<lparr> n_label = fst lr, n_ftm_id = row_id (snd lr), n_schema = JNull, n_name = JNull,
       n_datasets = JNull, n_modified_at = JNull \<rparr>"

text \<open>\<open>SET n.schema = row.schema, n.name = row.name, n.datasets = row.datasets,
  n.modified_at = row.modified_at\<close>\<close>

definition node_assign :: "label \<times> node_row \<Rightarrow> node \<Rightarrow> node" where
  "node_assign lr n =
     n\<lparr> n_schema := row_schema (snd lr), n_name := row_name (snd lr),
        n_datasets := row_datasets (snd lr), n_modified_at := row_modified_at (snd lr) \<rparr>"

definition node_cypher_row :: "label \<Rightarrow> node_row \<Rightarrow> store \<Rightarrow> store" where
  "node_cypher_row l row s =
     s\<lparr> nodes := merge_set node_matches node_assign node_create (l, row) (nodes s) \<rparr>"

text \<open>\<open>UNWIND $batch AS row\<close>: the rows of the batch in order.\<close>

definition NODE_CYPHER :: "label \<Rightarrow> node_row list \<Rightarrow> store \<Rightarrow> store" where
  "NODE_CYPHER l batch s = fold (node_cypher_row l) batch s"

subsection \<open>REL_CYPHER\<close>

text \<open>
  \<open>OPTIONAL MATCH (x:Label {ftm_id: v})\<close>: one binding for each matching node, and a
  single \<open>null\<close> binding when there is none.
\<close>

definition optional_match :: "label \<Rightarrow> json \<Rightarrow> node list \<Rightarrow> nat option list" where
  "optional_match l v ns =
     (case filter (\<lambda>i. n_label (ns ! i) = l \<and> prop_eq (n_ftm_id (ns ! i)) v) [0..<length ns] of
        [] \<Rightarrow> [None]
      | is \<Rightarrow> map Some is)"

definition coalesce :: "nat option \<Rightarrow> nat option \<Rightarrow> nat option" where
  "coalesce a b = (case a of Some x \<Rightarrow> Some x | None \<Rightarrow> b)"

text \<open>
  The two \<open>OPTIONAL MATCH\<close> clauses for one end followed by
  \<open>WITH ... coalesce(xP, xC)\<close>: the Person binding is preferred.
\<close>

definition endpoint :: "json \<Rightarrow> node list \<Rightarrow> nat option list" where
  "endpoint v ns =
     concat (map (\<lambda>p. map (\<lambda>c. coalesce p c) (optional_match Company v ns))
                 (optional_match Person v ns))"

text \<open>The bindings of \<open>(src, tgt)\<close> left by \<open>WHERE src IS NOT NULL AND tgt IS NOT NULL\<close>.\<close>

definition rel_bindings :: "rel_row \<Rightarrow> node list \<Rightarrow> (nat \<times> nat) list" where
  "rel_bindings row ns =
     concat (map (\<lambda>src. concat (map (\<lambda>tgt.
        (case (src, tgt) of (Some a, Some b) \<Rightarrow> [(a, b)] | _ \<Rightarrow> []))
        (endpoint (rel_target_id row) ns)))
        (endpoint (rel_source_id row) ns))"

text \<open>\<open>(src)-[r:TYPE {ftm_id: row.id}]->(tgt)\<close> with both ends bound.\<close>

definition rel_matches :: "rel_type \<times> rel_row \<times> nat \<times> nat \<Rightarrow> rel \<Rightarrow> bool" where
  "rel_matches q r =
     (case q of (ty, row, a, b) \<Rightarrow>
        r_type r = ty \<and> r_src r = a \<and> r_tgt r = b \<and> prop_eq (r_ftm_id r) (rel_id row))"

definition rel_create :: "rel_type \<times> rel_row \<times> nat \<times> nat \<Rightarrow> rel" where
  "rel_create q =
     (case q of (ty, row, a, b) \<Rightarrow>
        \<lparr> r_type = ty, r_src = a, r_tgt = b, r_ftm_id = rel_id row, r_schema = JNull,
          r_datasets = JNull, r_modified_at = JNull \<rparr>)"

text \<open>\<open>SET r.schema = row.schema, r.datasets = row.datasets,
  r.modified_at = row.modified_at\<close>\<close>

definition rel_assign :: "rel_type \<times> rel_row \<times> nat \<times> nat \<Rightarrow> rel \<Rightarrow> rel" where
  "rel_assign q r =
     (case q of (ty, row, a, b) \<Rightarrow>
        r\<lparr> r_schema := rel_schema row, r_datasets := rel_datasets row,
           r_modified_at := rel_modified_at row \<rparr>)"

definition rel_cypher_row :: "rel_type \<Rightarrow> rel_row \<Rightarrow> store \<Rightarrow> store" where
  "rel_cypher_row ty row s =
     s\<lparr> rels := fold (\<lambda>ab. merge_set rel_matches rel_assign rel_create (ty, row, ab))
                     (rel_bindings row (nodes s)) (rels s) \<rparr>"

definition REL_CYPHER :: "rel_type \<Rightarrow> rel_row list \<Rightarrow> store \<Rightarrow> store" where
  "REL_CYPHER ty batch s = fold (rel_cypher_row ty) batch s"

section \<open>The driver's encoding of statement parameters\<close>

text \<open>
  \<open>tx.run(cypher, batch=batch)\<close> encodes the parameters before anything is sent.
  \<open>None\<close>, booleans and strings are encoded as they are, a list and a dict (whose keys
  are strings here) element by element in order. An \<open>int\<close> must fit in 64 bits, or the
  encoder raises \<open>OverflowError\<close>; a \<open>Decimal\<close> is none of the types the encoder knows,
  and it raises \<open>ValueError\<close>. The result is the exception of the first value that
  fails, if there is one. A string is taken to have an encoding: the strings here are
  character lists, which have no lone surrogates.
\<close>

fun first_error :: "error option list \<Rightarrow> error option" where
  "first_error [] = None"
| "first_error (None # rest) = first_error rest"
| "first_error (Some e # rest) = Some e"

fun pack :: "json \<Rightarrow> error option" where
  "pack JNull = None"
| "pack (JBool b) = None"
| "pack (JInt i) = (if - (2 ^ 63) \<le> i \<and> i < 2 ^ 63 then None else Some OverflowError)"
| "pack (JDec d) = Some ValueError"
| "pack (JStr t) = None"
| "pack (JList vs) = first_error (map pack vs)"
| "pack (JObj d) = first_error (map (\<lambda>kv. pack (snd kv)) d)"

text \<open>The rows as the dicts that \<open>to_node_row\<close> and \<open>to_rel_row\<close> build, keys in order.\<close>

definition node_row_dict :: "node_row \<Rightarrow> json" where
  "node_row_dict row =
     JObj [(''id'', row_id row), (''schema'', row_schema row), (''name'', row_name row),
           (''datasets'', row_datasets row), (''modified_at'', row_modified_at row)]"

definition rel_row_dict :: "rel_row \<Rightarrow> json" where
  "rel_row_dict row =
     JObj [(''id'', rel_id row), (''schema'', rel_schema row),
           (''source_id'', rel_source_id row), (''target_id'', rel_target_id row),
           (''datasets'', rel_datasets row), (''modified_at'', rel_modified_at row)]"

section \<open>Batching and the two passes\<close>

text \<open>
  \<open>flush_nodes\<close> and \<open>flush_rels\<close> return at once on an empty batch; otherwise they run
  the statement in one write transaction and clear the batch. When the driver cannot
  encode the batch, \<open>tx.run\<close> raises, nothing is written, and the exception leaves the
  function. Otherwise the result is the store and the batch as the caller sees it
  afterwards.
\<close>

definition flush_nodes :: "label \<Rightarrow> node_row list \<Rightarrow> store \<Rightarrow> error + (store \<times> node_row list)" where
  "flush_nodes l batch s =
     (if batch = [] then Inr (s, batch)
      else (case pack (JList (map node_row_dict batch)) of
              Some e \<Rightarrow> Inl e
            | None \<Rightarrow> Inr (NODE_CYPHER l batch s, [])))"

definition flush_rels :: "rel_type \<Rightarrow> rel_row list \<Rightarrow> store \<Rightarrow> error + (store \<times> rel_row list)" where
  "flush_rels ty batch s =
     (if batch = [] then Inr (s, batch)
      else (case pack (JList (map rel_row_dict batch)) of
              Some e \<Rightarrow> Inl e
            | None \<Rightarrow> Inr (REL_CYPHER ty batch s, [])))"

text \<open>
  The loop of \<open>import_nodes\<close> over what \<open>iter_entities\<close> gives for the path: the
  entities it yields and, when the parser raises after them, the exception, which then
  leaves the loop. The state of the loop is the store, the two batches and the two
  counters.
\<close>

fun import_nodes_loop ::
  "int \<Rightarrow> entity list \<Rightarrow> error option \<Rightarrow> store \<Rightarrow> node_row list \<Rightarrow> node_row list \<Rightarrow> nat \<Rightarrow> nat
     \<Rightarrow> error + (store \<times> node_row list \<times> node_row list \<times> nat \<times> nat)" where
  "import_nodes_loop batch_size [] stop s company_batch person_batch companies persons =
     (case stop of
        Some e \<Rightarrow> Inl e
      | None \<Rightarrow> Inr (s, company_batch, person_batch, companies, persons))"
| "import_nodes_loop batch_size (entity # es) stop s company_batch person_batch companies persons =
     (case import_nodes_row entity of
        Inl e \<Rightarrow> Inl e
      | Inr None \<Rightarrow>
          import_nodes_loop batch_size es stop s company_batch person_batch companies persons
      | Inr (Some (Company, row)) \<Rightarrow>
          (if int (length (company_batch @ [row])) \<ge> batch_size
           then (case flush_nodes Company (company_batch @ [row]) s of
                   Inl e \<Rightarrow> Inl e
                 | Inr (s', b') \<Rightarrow>
                     import_nodes_loop batch_size es stop s' b' person_batch (companies + 1) persons)
           else import_nodes_loop batch_size es stop s (company_batch @ [row]) person_batch
                  (companies + 1) persons)
      | Inr (Some (Person, row)) \<Rightarrow>
          (if int (length (person_batch @ [row])) \<ge> batch_size
           then (case flush_nodes Person (person_batch @ [row]) s of
                   Inl e \<Rightarrow> Inl e
                 | Inr (s', b') \<Rightarrow>
                     import_nodes_loop batch_size es stop s' company_batch b' companies (persons + 1))
           else import_nodes_loop batch_size es stop s company_batch (person_batch @ [row])
                  companies (persons + 1)))"

definition import_nodes ::
  "entity list \<times> error option \<Rightarrow> int \<Rightarrow> store \<Rightarrow> error + (store \<times> nat \<times> nat)" where
  "import_nodes path batch_size s =
     (case import_nodes_loop batch_size (fst path) (snd path) s [] [] 0 0 of
        Inl e \<Rightarrow> Inl e
      | Inr (s1, company_batch, person_batch, companies, persons) \<Rightarrow>
          (case flush_nodes Company company_batch s1 of
             Inl e \<Rightarrow> Inl e
           | Inr (s2, _) \<Rightarrow>
               (case flush_nodes Person person_batch s2 of
                  Inl e \<Rightarrow> Inl e
                | Inr (s3, _) \<Rightarrow> Inr (s3, companies, persons))))"

fun import_relationships_loop ::
  "int \<Rightarrow> entity list \<Rightarrow> error option \<Rightarrow> store \<Rightarrow> rel_row list \<Rightarrow> rel_row list \<Rightarrow> nat \<Rightarrow> nat
     \<Rightarrow> error + (store \<times> rel_row list \<times> rel_row list \<times> nat \<times> nat)" where
  "import_relationships_loop batch_size [] stop s directorship_batch ownership_batch
       directorships ownerships =
     (case stop of
        Some e \<Rightarrow> Inl e
      | None \<Rightarrow> Inr (s, directorship_batch, ownership_batch, directorships, ownerships))"
| "import_relationships_loop batch_size (entity # es) stop s directorship_batch ownership_batch
       directorships ownerships =
     (case import_relationships_row entity of
        Inl e \<Rightarrow> Inl e
      | Inr None \<Rightarrow>
          import_relationships_loop batch_size es stop s directorship_batch ownership_batch
            directorships ownerships
      | Inr (Some (DIRECTORSHIP, row)) \<Rightarrow>
          (if int (length (directorship_batch @ [row])) \<ge> batch_size
           then (case flush_rels DIRECTORSHIP (directorship_batch @ [row]) s of
                   Inl e \<Rightarrow> Inl e
                 | Inr (s', b') \<Rightarrow>
                     import_relationships_loop batch_size es stop s' b' ownership_batch
                       (directorships + 1) ownerships)
           else import_relationships_loop batch_size es stop s (directorship_batch @ [row])
                  ownership_batch (directorships + 1) ownerships)
      | Inr (Some (OWNERSHIP, row)) \<Rightarrow>
          (if int (length (ownership_batch @ [row])) \<ge> batch_size
           then (case flush_rels OWNERSHIP (ownership_batch @ [row]) s of
                   Inl e \<Rightarrow> Inl e
                 | Inr (s', b') \<Rightarrow>
                     import_relationships_loop batch_size es stop s' directorship_batch b'
                       directorships (ownerships + 1))
           else import_relationships_loop batch_size es stop s directorship_batch
                  (ownership_batch @ [row]) directorships (ownerships + 1)))"

definition import_relationships ::
  "entity list \<times> error option \<Rightarrow> int \<Rightarrow> store \<Rightarrow> error + (store \<times> nat \<times> nat)" where
  "import_relationships path batch_size s =
     (case import_relationships_loop batch_size (fst path) (snd path) s [] [] 0 0 of
        Inl e \<Rightarrow> Inl e
      | Inr (s1, directorship_batch, ownership_batch, directorships, ownerships) \<Rightarrow>
          (case flush_rels DIRECTORSHIP directorship_batch s1 of
             Inl e \<Rightarrow> Inl e
           | Inr (s2, _) \<Rightarrow>
               (case flush_rels OWNERSHIP ownership_batch s2 of
                  Inl e \<Rightarrow> Inl e
                | Inr (s3, _) \<Rightarrow> Inr (s3, directorships, ownerships))))"

text \<open>
  \<open>main\<close>: the node pass, then the relationship pass over the same file; an
  exception in the first pass ends the run. Creating the indexes does not change the
  graph. The result is the final store with the four counts that are printed.
\<close>

definition main ::
  "entity list \<times> error option \<Rightarrow> int \<Rightarrow> store
     \<Rightarrow> error + (store \<times> (nat \<times> nat) \<times> (nat \<times> nat))" where
  "main path batch_size s =
     (case import_nodes path batch_size s of
        Inl e \<Rightarrow> Inl e
      | Inr (s1, companies, persons) \<Rightarrow>
          (case import_relationships path batch_size s1 of
             Inl e \<Rightarrow> Inl e
           | Inr (s2, directorships, ownerships) \<Rightarrow>
               Inr (s2, (companies, persons), (directorships, ownerships))))"

section \<open>Subgraph assembly (graph_repository.py)\<close>

text \<open>
  One row of the two-hop query. The fields are typed \<open>Optional[str]\<close> in the
  source; \<open>not x\<close> holds for \<open>None\<close> and for the empty string.
\<close>

record graph_row =
  root_id :: "string option"
  root_name :: "string option"
  person_id :: "string option"
  person_name :: "string option"
  other_company_id :: "string option"
  other_company_name :: "string option"
  role_to_root :: "string option"
  role_to_other :: "string option"

record graph_node =
  g_id :: string
  g_name :: "string option"
  g_type :: string

record graph_link =
  l_source :: string
  l_target :: string
  l_role :: "string option"

definition str_truthy :: "string option \<Rightarrow> bool" where
  "str_truthy x = (case x of None \<Rightarrow> False | Some s \<Rightarrow> s \<noteq> [])"

text \<open>\<open>role or None\<close>\<close>

definition or_none :: "string option \<Rightarrow> string option" where
  "or_none x = (if str_truthy x then x else None)"

text \<open>
  \<open>nodes_by_id\<close> is a dict, which keeps insertion order: an association list with
  one entry for each key, a new key going to the end.
\<close>

definition add_node ::
  "string option \<Rightarrow> string option \<Rightarrow> string \<Rightarrow> (string \<times> graph_node) list
     \<Rightarrow> (string \<times> graph_node) list" where
  "add_node node_id name node_type nodes_by_id =
     (case node_id of
        None \<Rightarrow> nodes_by_id
      | Some i \<Rightarrow>
          if i = [] then nodes_by_id
          else
            (case map_of nodes_by_id i of
               Some n \<Rightarrow>
                 if \<not> str_truthy (g_name n) \<and> str_truthy name
                 then map (\<lambda>(k, v). if k = i then (k, v\<lparr> g_name := name \<rparr>) else (k, v))
                        nodes_by_id
                 else nodes_by_id
             | None \<Rightarrow>
                 nodes_by_id @ [(i, \<lparr> g_id = i, g_name = name, g_type = node_type \<rparr>)]))"

definition add_link ::
  "string option \<Rightarrow> string option \<Rightarrow> string option
     \<Rightarrow> (string \<times> string \<times> string option) set \<times> graph_link list
     \<Rightarrow> (string \<times> string \<times> string option) set \<times> graph_link list" where
  "add_link source target role st =
     (case (source, target) of
        (Some src, Some tgt) \<Rightarrow>
          if src = [] \<or> tgt = [] then st
          else if (src, tgt, or_none role) \<in> fst st then st
          else (insert (src, tgt, or_none role) (fst st),
                snd st @ [\<lparr> l_source = src, l_target = tgt, l_role = or_none role \<rparr>])
      | _ \<Rightarrow> st)"

text \<open>The body of the loop over the rows.\<close>

definition graph_step ::
  "graph_row
     \<Rightarrow> (string \<times> graph_node) list \<times> (string \<times> string \<times> string option) set \<times> graph_link list
     \<Rightarrow> (string \<times> graph_node) list \<times> (string \<times> string \<times> string option) set \<times> graph_link list" where
  "graph_step row st =
     (let nodes1 = add_node (root_id row) (root_name row) ''company'' (fst st);
          nodes2 = add_node (person_id row) (person_name row) ''person'' nodes1;
          nodes3 = add_node (other_company_id row) (other_company_name row) ''company'' nodes2;
          links1 = add_link (person_id row) (root_id row) (role_to_root row) (snd st);
          links2 = add_link (person_id row) (other_company_id row) (role_to_other row) links1
      in (nodes3, links2))"

text \<open>
  \<open>get_company_graph\<close>, given what the read transaction returns: the rows or the
  exception, which is passed on. The result is \<open>nodes\<close> and \<open>links\<close>.
\<close>

definition get_company_graph ::
  "error + graph_row list \<Rightarrow> error + (graph_node list \<times> graph_link list)" where
  "get_company_graph result =
     (case result of
        Inl e \<Rightarrow> Inl e
      | Inr rows \<Rightarrow>
          (case fold graph_step rows ([], {}, []) of
             (nodes_by_id, links_set, links) \<Rightarrow> Inr (map snd nodes_by_id, links)))"

section \<open>Search with fallback (graph_repository.py)\<close>












section \<open>Notions used in the statements and proofs\<close>

text \<open>The first element of a property given as a non-empty list; nothing otherwise.\<close>

definition first_value :: "json \<Rightarrow> json" where
  "first_value v = (case v of JList (x # xs) \<Rightarrow> x | _ \<Rightarrow> JNull)"

text \<open>A property value that is not a non-empty list: a scalar, an empty list, or none.\<close>

definition bare :: "json \<Rightarrow> bool" where
  "bare v = (case v of JList (x # xs) \<Rightarrow> False | _ \<Rightarrow> True)"

text \<open>A record whose \<open>properties\<close> is a dict, or is missing or falsy: \<open>props\<close> is a dict.\<close>

definition dict_properties :: "entity \<Rightarrow> bool" where
  "dict_properties entity =
     (case py_or (dict_get entity ''properties'') (JObj []) of JObj props \<Rightarrow> True | _ \<Rightarrow> False)"

text \<open>What one \<open>MERGE ... SET\<close> row does to an element that already exists.\<close>

definition upd :: "('r \<Rightarrow> 'x \<Rightarrow> bool) \<Rightarrow> ('r \<Rightarrow> 'x \<Rightarrow> 'x) \<Rightarrow> 'r \<Rightarrow> 'x \<Rightarrow> 'x" where
  "upd matches assign r x = (if matches r x then assign r x else x)"

text \<open>
  The two facts about a \<open>MERGE ... SET\<close> statement that its idempotence rests on: the
  assignments do not touch what the pattern tests, and they overwrite each other.
\<close>

definition merge_laws :: "('r \<Rightarrow> 'x \<Rightarrow> bool) \<Rightarrow> ('r \<Rightarrow> 'x \<Rightarrow> 'x) \<Rightarrow> bool" where
  "merge_laws m a = ((\<forall>r r' x. m r (a r' x) = m r x) \<and> (\<forall>r r' x. a r (a r' x) = a r x))"

text \<open>An identifier resolves when a Person or a Company node carries it.\<close>

definition resolves :: "json \<Rightarrow> node list \<Rightarrow> bool" where
  "resolves v ns =
     (\<exists>n \<in> set ns. (n_label n = Person \<or> n_label n = Company) \<and> prop_eq (n_ftm_id n) v)"

text \<open>A relationship whose two ends are nodes carrying the two identifiers of a row.\<close>

definition joins :: "rel_row \<Rightarrow> node list \<Rightarrow> rel \<Rightarrow> bool" where
  "joins row ns r =
     (r_src r < length ns \<and> prop_eq (n_ftm_id (ns ! r_src r)) (rel_source_id row)
      \<and> r_tgt r < length ns \<and> prop_eq (n_ftm_id (ns ! r_tgt r)) (rel_target_id row))"

text \<open>
  What the rows offer to \<open>_add_link\<close> and to \<open>_add_node\<close>, in the order of the calls.
\<close>

definition link_candidates :: "graph_row list \<Rightarrow> (string option \<times> string option \<times> string option) list" where
  "link_candidates rows =
     concat (map (\<lambda>row. [(person_id row, root_id row, role_to_root row),
                          (person_id row, other_company_id row, role_to_other row)]) rows)"

text \<open>The link a candidate stands for, if its source and target are both given.\<close>

definition link_of :: "string option \<times> string option \<times> string option \<Rightarrow> graph_link list" where
  "link_of c =
     (case c of
        (Some src, Some tgt, role) \<Rightarrow>
          if src = [] \<or> tgt = [] then []
          else [\<lparr> l_source = src, l_target = tgt, l_role = or_none role \<rparr>]
      | _ \<Rightarrow> [])"

definition sightings :: "graph_row list \<Rightarrow> (string option \<times> string option \<times> string) list" where
  "sightings rows =
     concat (map (\<lambda>row. [(root_id row, root_name row, ''company''),
                          (person_id row, person_name row, ''person''),
                          (other_company_id row, other_company_name row, ''company'')]) rows)"

text \<open>The names and types with which an identifier is sighted, in order.\<close>

definition seen :: "string \<Rightarrow> graph_row list \<Rightarrow> (string option \<times> string) list" where
  "seen i rows = map snd (filter (\<lambda>s. fst s = Some i) (sightings rows))"

text \<open>
  The first non-empty name among the name of the first sighting and the later ones;
  the name of the first sighting when there is none.
\<close>

definition settled_name :: "string option \<Rightarrow> string option list \<Rightarrow> string option" where
  "settled_name nm later = (case filter str_truthy (nm # later) of [] \<Rightarrow> nm | x # _ \<Rightarrow> x)"

definition link_key :: "graph_link \<Rightarrow> string \<times> string \<times> string option" where
  "link_key l = (l_source l, l_target l, l_role l)"


definition nodes_inv :: "(string \<times> graph_node) list \<Rightarrow> bool" where
  "nodes_inv acc = (distinct (map fst acc) \<and> (\<forall>(k, v) \<in> set acc. g_id v = k))"

text \<open>
  The two passes when the driver can encode every batch: the same functions with the
  encoding left out, so that no flush raises. They serve the proofs about runs that
  complete.
\<close>

definition flush_nodes_accepted :: "label \<Rightarrow> node_row list \<Rightarrow> store \<Rightarrow> store \<times> node_row list" where
  "flush_nodes_accepted l batch s = (if batch = [] then (s, batch) else (NODE_CYPHER l batch s, []))"

definition flush_rels_accepted :: "rel_type \<Rightarrow> rel_row list \<Rightarrow> store \<Rightarrow> store \<times> rel_row list" where
  "flush_rels_accepted ty batch s = (if batch = [] then (s, batch) else (REL_CYPHER ty batch s, []))"

fun import_nodes_loop_accepted ::
  "int \<Rightarrow> entity list \<Rightarrow> error option \<Rightarrow> store \<Rightarrow> node_row list \<Rightarrow> node_row list \<Rightarrow> nat \<Rightarrow> nat
     \<Rightarrow> error + (store \<times> node_row list \<times> node_row list \<times> nat \<times> nat)" where
  "import_nodes_loop_accepted batch_size [] stop s company_batch person_batch companies persons =
     (case stop of
        Some e \<Rightarrow> Inl e
      | None \<Rightarrow> Inr (s, company_batch, person_batch, companies, persons))"
| "import_nodes_loop_accepted batch_size (entity # es) stop s company_batch person_batch companies persons =
     (case import_nodes_row entity of
        Inl e \<Rightarrow> Inl e
      | Inr None \<Rightarrow>
          import_nodes_loop_accepted batch_size es stop s company_batch person_batch companies persons
      | Inr (Some (Company, row)) \<Rightarrow>
          (if int (length (company_batch @ [row])) \<ge> batch_size
           then (case flush_nodes_accepted Company (company_batch @ [row]) s of
                   (s', b') \<Rightarrow>
                     import_nodes_loop_accepted batch_size es stop s' b' person_batch (companies + 1) persons)
           else import_nodes_loop_accepted batch_size es stop s (company_batch @ [row]) person_batch
                  (companies + 1) persons)
      | Inr (Some (Person, row)) \<Rightarrow>
          (if int (length (person_batch @ [row])) \<ge> batch_size
           then (case flush_nodes_accepted Person (person_batch @ [row]) s of
                   (s', b') \<Rightarrow>
                     import_nodes_loop_accepted batch_size es stop s' company_batch b' companies (persons + 1))
           else import_nodes_loop_accepted batch_size es stop s company_batch (person_batch @ [row])
                  companies (persons + 1)))"

definition import_nodes_accepted ::
  "entity list \<times> error option \<Rightarrow> int \<Rightarrow> store \<Rightarrow> error + (store \<times> nat \<times> nat)" where
  "import_nodes_accepted path batch_size s =
     (case import_nodes_loop_accepted batch_size (fst path) (snd path) s [] [] 0 0 of
        Inl e \<Rightarrow> Inl e
      | Inr (s1, company_batch, person_batch, companies, persons) \<Rightarrow>
          (case flush_nodes_accepted Company company_batch s1 of
             (s2, _) \<Rightarrow>
               (case flush_nodes_accepted Person person_batch s2 of
                  (s3, _) \<Rightarrow> Inr (s3, companies, persons))))"

fun import_relationships_loop_accepted ::
  "int \<Rightarrow> entity list \<Rightarrow> error option \<Rightarrow> store \<Rightarrow> rel_row list \<Rightarrow> rel_row list \<Rightarrow> nat \<Rightarrow> nat
     \<Rightarrow> error + (store \<times> rel_row list \<times> rel_row list \<times> nat \<times> nat)" where
  "import_relationships_loop_accepted batch_size [] stop s directorship_batch ownership_batch
       directorships ownerships =
     (case stop of
        Some e \<Rightarrow> Inl e
      | None \<Rightarrow> Inr (s, directorship_batch, ownership_batch, directorships, ownerships))"
| "import_relationships_loop_accepted batch_size (entity # es) stop s directorship_batch ownership_batch
       directorships ownerships =
     (case import_relationships_row entity of
        Inl e \<Rightarrow> Inl e
      | Inr None \<Rightarrow>
          import_relationships_loop_accepted batch_size es stop s directorship_batch ownership_batch
            directorships ownerships
      | Inr (Some (DIRECTORSHIP, row)) \<Rightarrow>
          (if int (length (directorship_batch @ [row])) \<ge> batch_size
           then (case flush_rels_accepted DIRECTORSHIP (directorship_batch @ [row]) s of
                   (s', b') \<Rightarrow>
                     import_relationships_loop_accepted batch_size es stop s' b' ownership_batch
                       (directorships + 1) ownerships)
           else import_relationships_loop_accepted batch_size es stop s (directorship_batch @ [row])
                  ownership_batch (directorships + 1) ownerships)
      | Inr (Some (OWNERSHIP, row)) \<Rightarrow>
          (if int (length (ownership_batch @ [row])) \<ge> batch_size
           then (case flush_rels_accepted OWNERSHIP (ownership_batch @ [row]) s of
                   (s', b') \<Rightarrow>
                     import_relationships_loop_accepted batch_size es stop s' directorship_batch b'
                       directorships (ownerships + 1))
           else import_relationships_loop_accepted batch_size es stop s directorship_batch
                  (ownership_batch @ [row]) directorships (ownerships + 1)))"

definition import_relationships_accepted ::
  "entity list \<times> error option \<Rightarrow> int \<Rightarrow> store \<Rightarrow> error + (store \<times> nat \<times> nat)" where
  "import_relationships_accepted path batch_size s =
     (case import_relationships_loop_accepted batch_size (fst path) (snd path) s [] [] 0 0 of
        Inl e \<Rightarrow> Inl e
      | Inr (s1, directorship_batch, ownership_batch, directorships, ownerships) \<Rightarrow>
          (case flush_rels_accepted DIRECTORSHIP directorship_batch s1 of
             (s2, _) \<Rightarrow>
               (case flush_rels_accepted OWNERSHIP ownership_batch s2 of
                  (s3, _) \<Rightarrow> Inr (s3, directorships, ownerships))))"

definition main_accepted ::
  "entity list \<times> error option \<Rightarrow> int \<Rightarrow> store
     \<Rightarrow> error + (store \<times> (nat \<times> nat) \<times> (nat \<times> nat))" where
  "main_accepted path batch_size s =
     (case import_nodes_accepted path batch_size s of
        Inl e \<Rightarrow> Inl e
      | Inr (s1, companies, persons) \<Rightarrow>
          (case import_relationships_accepted path batch_size s1 of
             Inl e \<Rightarrow> Inl e
           | Inr (s2, directorships, ownerships) \<Rightarrow>
               Inr (s2, (companies, persons), (directorships, ownerships))))"

text \<open>A sequence of rows, each with the label or type of its statement, run in order.\<close>

definition node_ops :: "(label \<times> node_row) list \<Rightarrow> store \<Rightarrow> store" where
  "node_ops ops s = fold (\<lambda>op. node_cypher_row (fst op) (snd op)) ops s"

definition rel_ops :: "(rel_type \<times> rel_row) list \<Rightarrow> store \<Rightarrow> store" where
  "rel_ops ops s = fold (\<lambda>op. rel_cypher_row (fst op) (snd op)) ops s"

text \<open>
  The rows that the two loops accept from the entities, in the order of the input, and
  those of one label or type among them.
\<close>

definition node_rows :: "entity list \<Rightarrow> (label \<times> node_row) list" where
  "node_rows es =
     concat (map (\<lambda>e. case import_nodes_row e of Inr (Some lr) \<Rightarrow> [lr] | _ \<Rightarrow> []) es)"

definition rel_rows :: "entity list \<Rightarrow> (rel_type \<times> rel_row) list" where
  "rel_rows es =
     concat (map (\<lambda>e. case import_relationships_row e of Inr (Some tr) \<Rightarrow> [tr] | _ \<Rightarrow> []) es)"

definition of_kind :: "'k \<Rightarrow> ('k \<times> 'r) list \<Rightarrow> 'r list" where
  "of_kind k ops = map snd (filter (\<lambda>op. fst op = k) ops)"

text \<open>
  The bindings of all rows of a relationship pass, each with its row: what the
  \<open>MERGE\<close> of the pass runs on, in order.
\<close>

definition rel_binds :: "(rel_type \<times> rel_row) list \<Rightarrow> node list \<Rightarrow> (rel_type \<times> rel_row \<times> nat \<times> nat) list" where
  "rel_binds ops ns =
     concat (map (\<lambda>op. map (\<lambda>ab. (fst op, snd op, ab)) (rel_bindings (snd op) ns)) ops)"

text \<open>The records that the node pass and the relationship pass look at.\<close>

definition node_schema :: "entity \<Rightarrow> bool" where
  "node_schema e =
     (dict_get e ''schema'' = JStr ''Company'' \<or> dict_get e ''schema'' = JStr ''Person'')"

definition edge_schema :: "entity \<Rightarrow> bool" where
  "edge_schema e =
     (dict_get e ''schema'' = JStr ''Directorship'' \<or> dict_get e ''schema'' = JStr ''Ownership'')"

text \<open>
  An input row of a relationship pass whose type, identifier and bound ends are those
  of a relationship in the store.
\<close>

definition rel_row_matches :: "node list \<Rightarrow> rel \<Rightarrow> rel_type \<times> rel_row \<Rightarrow> bool" where
  "rel_row_matches ns r op =
     (r_type r = fst op \<and> prop_eq (r_ftm_id r) (rel_id (snd op))
      \<and> (r_src r, r_tgt r) \<in> set (rel_bindings (snd op) ns))"


text \<open>
  The keys of the two upserts: label and identifier for a node; type, the two end
  nodes and identifier for a relationship.
\<close>

definition node_key :: "label \<Rightarrow> json \<Rightarrow> node \<Rightarrow> bool" where
  "node_key l v n = (n_label n = l \<and> prop_eq (n_ftm_id n) v)"

definition rel_key :: "rel_type \<Rightarrow> nat \<Rightarrow> nat \<Rightarrow> json \<Rightarrow> rel \<Rightarrow> bool" where
  "rel_key ty a b v r = (r_type r = ty \<and> r_src r = a \<and> r_tgt r = b \<and> prop_eq (r_ftm_id r) v)"

text \<open>The effect of one \<open>MERGE ... SET\<close> row on the elements of the store, their order left aside.\<close>

definition merge_mset :: "('r \<Rightarrow> 'x \<Rightarrow> bool) \<Rightarrow> ('r \<Rightarrow> 'x \<Rightarrow> 'x) \<Rightarrow> ('r \<Rightarrow> 'x) \<Rightarrow> 'r \<Rightarrow> 'x multiset \<Rightarrow> 'x multiset" where
  "merge_mset m a c r M =
     (if \<exists>x \<in># M. m r x then image_mset (upd m a r) M else add_mset (a r (c r)) M)"

text \<open>Two rows that no element matches at once.\<close>

definition apart :: "('r \<Rightarrow> 'x \<Rightarrow> bool) \<Rightarrow> 'r \<Rightarrow> 'r \<Rightarrow> bool" where
  "apart m r1 r2 = (\<forall>x. \<not> (m r1 x \<and> m r2 x))"

text \<open>The schema and identifier of a record; the label or type and identifier of a row.\<close>

definition record_key :: "entity \<Rightarrow> json \<times> json" where
  "record_key e = (dict_get e ''schema'', dict_get e ''id'')"

definition node_op_key :: "label \<times> node_row \<Rightarrow> label \<times> json" where
  "node_op_key op = (fst op, row_id (snd op))"

definition rel_op_key :: "rel_type \<times> rel_row \<Rightarrow> rel_type \<times> json" where
  "rel_op_key op = (fst op, rel_id (snd op))"

text \<open>The schema names of the two labels and of the two relationship types.\<close>

definition label_schema :: "label \<Rightarrow> json" where
  "label_schema l = (case l of Company \<Rightarrow> JStr ''Company'' | Person \<Rightarrow> JStr ''Person'')"

definition rel_type_schema :: "rel_type \<Rightarrow> json" where
  "rel_type_schema ty = (case ty of DIRECTORSHIP \<Rightarrow> JStr ''Directorship'' | OWNERSHIP \<Rightarrow> JStr ''Ownership'')"

text \<open>
  A relationship as a reader of the graph sees it: with the two nodes at its ends
  instead of their positions. The graph of a store is its nodes and these views of its
  relationships, their order left aside.
\<close>

record edge_view =
  e_type :: rel_type
  e_src :: node
  e_tgt :: node
  e_ftm_id :: json
  e_schema :: json
  e_datasets :: json
  e_modified_at :: json

definition rel_view :: "node list \<Rightarrow> rel \<Rightarrow> edge_view" where
  "rel_view ns r =
     \<lparr> e_type = r_type r, e_src = ns ! r_src r, e_tgt = ns ! r_tgt r, e_ftm_id = r_ftm_id r,
       e_schema = r_schema r, e_datasets = r_datasets r, e_modified_at = r_modified_at r \<rparr>"

definition graph_of :: "store \<Rightarrow> node multiset \<times> edge_view multiset" where
  "graph_of s = (mset (nodes s), mset (map (rel_view (nodes s)) (rels s)))"

text \<open>
  A store in which no two nodes share a label and identifier and every relationship
  ends at nodes of the store.
\<close>

definition wf_store :: "store \<Rightarrow> bool" where
  "wf_store s =
     ((\<forall>l v. length (filter (node_key l v) (nodes s)) \<le> 1)
      \<and> (\<forall>r \<in> set (rels s). r_src r < length (nodes s) \<and> r_tgt r < length (nodes s)))"

text \<open>The relationship statement read on node records instead of positions.\<close>

definition ev_matches :: "rel_type \<times> rel_row \<times> node \<times> node \<Rightarrow> edge_view \<Rightarrow> bool" where
  "ev_matches q e =
     (case q of (ty, row, x, y) \<Rightarrow>
        e_type e = ty \<and> e_src e = x \<and> e_tgt e = y \<and> prop_eq (e_ftm_id e) (rel_id row))"

definition ev_create :: "rel_type \<times> rel_row \<times> node \<times> node \<Rightarrow> edge_view" where
  "ev_create q =
     (case q of (ty, row, x, y) \<Rightarrow>
        \<lparr> e_type = ty, e_src = x, e_tgt = y, e_ftm_id = rel_id row, e_schema = JNull,
          e_datasets = JNull, e_modified_at = JNull \<rparr>)"

definition ev_assign :: "rel_type \<times> rel_row \<times> node \<times> node \<Rightarrow> edge_view \<Rightarrow> edge_view" where
  "ev_assign q e =
     (case q of (ty, row, x, y) \<Rightarrow>
        e\<lparr> e_schema := rel_schema row, e_datasets := rel_datasets row,
           e_modified_at := rel_modified_at row \<rparr>)"

definition opt_nodes :: "label \<Rightarrow> json \<Rightarrow> node list \<Rightarrow> node option list" where
  "opt_nodes l v ns = (case filter (node_key l v) ns of [] \<Rightarrow> [None] | ys \<Rightarrow> map Some ys)"

definition ep_nodes :: "json \<Rightarrow> node list \<Rightarrow> node option list" where
  "ep_nodes v ns =
     concat (map (\<lambda>p. map (\<lambda>c. case p of Some x \<Rightarrow> Some x | None \<Rightarrow> c) (opt_nodes Company v ns))
                 (opt_nodes Person v ns))"

definition node_bindings :: "rel_row \<Rightarrow> node list \<Rightarrow> (node \<times> node) list" where
  "node_bindings row ns =
     concat (map (\<lambda>src. concat (map (\<lambda>tgt.
        (case (src, tgt) of (Some a, Some b) \<Rightarrow> [(a, b)] | _ \<Rightarrow> []))
        (ep_nodes (rel_target_id row) ns)))
        (ep_nodes (rel_source_id row) ns))"

definition ev_binds :: "(rel_type \<times> rel_row) list \<Rightarrow> node list \<Rightarrow> (rel_type \<times> rel_row \<times> node \<times> node) list" where
  "ev_binds ops ns =
     concat (map (\<lambda>op. map (\<lambda>xy. (fst op, snd op, xy)) (node_bindings (snd op) ns)) ops)"

text \<open>
  Bindings whose positions are in range and name nodes unlike every other node of the
  list; the same binding with node records; relationships whose ends are in range.
\<close>

definition bound_ok :: "node list \<Rightarrow> rel_type \<times> rel_row \<times> nat \<times> nat \<Rightarrow> bool" where
  "bound_ok ns q =
     (case q of (ty, row, a, b) \<Rightarrow>
        a < length ns \<and> b < length ns
        \<and> (\<forall>i < length ns. ns ! i = ns ! a \<longrightarrow> i = a)
        \<and> (\<forall>i < length ns. ns ! i = ns ! b \<longrightarrow> i = b))"

definition lift_binding :: "node list \<Rightarrow> rel_type \<times> rel_row \<times> nat \<times> nat \<Rightarrow> rel_type \<times> rel_row \<times> node \<times> node" where
  "lift_binding ns q = (case q of (ty, row, a, b) \<Rightarrow> (ty, row, ns ! a, ns ! b))"

definition ends_valid :: "node list \<Rightarrow> rel list \<Rightarrow> bool" where
  "ends_valid ns rs = (\<forall>r \<in> set rs. r_src r < length ns \<and> r_tgt r < length ns)"

definition ev_key :: "rel_type \<times> rel_row \<times> node \<times> node \<Rightarrow> rel_type \<times> json" where
  "ev_key q = (fst q, rel_id (fst (snd q)))"



text \<open>An input whose accepted rows the driver can all encode.\<close>

definition encodable :: "entity list \<Rightarrow> bool" where
  "encodable es =
     ((\<forall>op \<in> set (node_rows es). pack (node_row_dict (snd op)) = None)
      \<and> (\<forall>op \<in> set (rel_rows es). pack (rel_row_dict (snd op)) = None))"

section \<open>The classifier\<close>

lemma prop_first_dict:
  "py_or (dict_get entity ''properties'') (JObj []) = JObj props \<Longrightarrow>
   prop_first entity key = Inr (first_value (dict_get props key))"
  by (simp add: prop_first_def first_value_def split: json.splits list.splits)

lemma first_value_bare: "bare v \<Longrightarrow> first_value v = JNull"
  by (simp add: bare_def first_value_def split: json.splits list.splits)

lemma py_or_dict: "dict_get entity ''properties'' = JObj props \<Longrightarrow>
  \<exists>p. py_or (dict_get entity ''properties'') (JObj []) = JObj p \<and> (\<forall>k. dict_get p k = dict_get props k)"
  by (cases props) (auto simp: py_or_def)

text \<open>
  C10. A property value that is not a non-empty list (a bare scalar, an empty list, a
  missing key) is treated as absent: \<open>prop_first\<close> returns \<open>None\<close>, a node row built
  from a record with such a name has no name, and a Directorship or Ownership record
  with such a director, organization, owner or asset yields no edge row.
\<close>

theorem scalar_property_is_absent:
  assumes props: "dict_get entity ''properties'' = JObj props"
  shows "(bare (dict_get props key) \<longrightarrow> prop_first entity key = Inr JNull)
    \<and> (bare (dict_get props ''name'') \<longrightarrow>
         to_node_row entity =
           Inr \<lparr> row_id = dict_get entity ''id'', row_schema = dict_get entity ''schema'',
                 row_name = JNull,
                 row_datasets = py_or (dict_get entity ''datasets'') (JList []),
                 row_modified_at =
                   py_or (dict_get entity ''modifiedAt'') (dict_get entity ''modified_at'') \<rparr>)
    \<and> (dict_get entity ''schema'' = JStr ''Directorship''
         \<and> (bare (dict_get props ''director'') \<or> bare (dict_get props ''organization''))
         \<longrightarrow> to_rel_row entity = Inr None \<and> import_relationships_row entity = Inr None)
    \<and> (dict_get entity ''schema'' = JStr ''Ownership''
         \<and> (bare (dict_get props ''owner'') \<or> bare (dict_get props ''asset''))
         \<longrightarrow> to_rel_row entity = Inr None \<and> import_relationships_row entity = Inr None)"
proof -
  obtain p where p: "py_or (dict_get entity ''properties'') (JObj []) = JObj p"
    and same: "\<And>k. dict_get p k = dict_get props k"
    using py_or_dict[OF props] by blast
  have pf: "\<And>k. prop_first entity k = Inr (first_value (dict_get props k))"
    using prop_first_dict[OF p] same by simp
  have 1: "bare (dict_get props key) \<longrightarrow> prop_first entity key = Inr JNull"
    by (simp add: pf first_value_bare)
  have 2: "bare (dict_get props ''name'') \<longrightarrow>
         to_node_row entity =
           Inr \<lparr> row_id = dict_get entity ''id'', row_schema = dict_get entity ''schema'',
                 row_name = JNull,
                 row_datasets = py_or (dict_get entity ''datasets'') (JList []),
                 row_modified_at =
                   py_or (dict_get entity ''modifiedAt'') (dict_get entity ''modified_at'') \<rparr>"
    by (simp add: to_node_row_def pf first_value_bare)
  have 3: "dict_get entity ''schema'' = JStr ''Directorship''
         \<and> (bare (dict_get props ''director'') \<or> bare (dict_get props ''organization''))
         \<longrightarrow> to_rel_row entity = Inr None \<and> import_relationships_row entity = Inr None"
    by (auto simp: import_relationships_row_def to_rel_row_def pf first_value_bare rel_row_of_def)
  have 4: "dict_get entity ''schema'' = JStr ''Ownership''
         \<and> (bare (dict_get props ''owner'') \<or> bare (dict_get props ''asset''))
         \<longrightarrow> to_rel_row entity = Inr None \<and> import_relationships_row entity = Inr None"
    by (auto simp: import_relationships_row_def to_rel_row_def pf first_value_bare rel_row_of_def)
  from 1 2 3 4 show ?thesis by blast
qed

theorem scalar_property_is_absent_witness:
  "prop_first [(''schema'', JStr ''Company''), (''id'', JStr ''C1''),
               (''properties'', JObj [(''name'', JStr ''Acme'')])] ''name'' = Inr JNull
   \<and> to_node_row [(''schema'', JStr ''Company''), (''id'', JStr ''C1''),
               (''properties'', JObj [(''name'', JStr ''Acme'')])]
       = Inr \<lparr> row_id = JStr ''C1'', row_schema = JStr ''Company'', row_name = JNull,
               row_datasets = JList [], row_modified_at = JNull \<rparr>
   \<and> to_rel_row [(''schema'', JStr ''Directorship''), (''id'', JStr ''D1''),
               (''properties'', JObj [(''director'', JStr ''P1''),
                                      (''organization'', JList [JStr ''C1''])])] = Inr None
   \<and> to_rel_row [(''schema'', JStr ''Ownership''), (''id'', JStr ''O1''),
               (''properties'', JObj [(''owner'', JList [JStr ''P1'']),
                                      (''asset'', JList [])])] = Inr None"
  using scalar_property_is_absent
          [of "[(''schema'', JStr ''Company''), (''id'', JStr ''C1''),
                (''properties'', JObj [(''name'', JStr ''Acme'')])]"
              "[(''name'', JStr ''Acme'')]" "''name''"]
        scalar_property_is_absent
          [of "[(''schema'', JStr ''Directorship''), (''id'', JStr ''D1''),
               (''properties'', JObj [(''director'', JStr ''P1''),
                                      (''organization'', JList [JStr ''C1''])])]"
              "[(''director'', JStr ''P1''), (''organization'', JList [JStr ''C1''])]"]
        scalar_property_is_absent
          [of "[(''schema'', JStr ''Ownership''), (''id'', JStr ''O1''),
               (''properties'', JObj [(''owner'', JList [JStr ''P1'']),
                                      (''asset'', JList [])])]"
              "[(''owner'', JList [JStr ''P1'']), (''asset'', JList [])]"]
  by (simp add: dict_get_def bare_def py_or_def)

lemma prop_first_no_dict:
  "\<not> dict_properties entity \<Longrightarrow> prop_first entity key = Inl AttributeError"
  by (simp add: dict_properties_def prop_first_def split: json.splits)

text \<open>
  C5, as stated, fails: the classifier is not total. The Company record below has no
  identifier and its \<open>properties\<close> is a string. It is not dropped:
  \<open>to_node_row\<close> runs before the identifier is tested, \<open>prop_first\<close> calls \<open>get\<close> on
  the string, and the \<open>AttributeError\<close> ends the node pass.
\<close>

theorem classifier_raises_on_scalar_properties:
  "import_nodes_row [(''schema'', JStr ''Company''), (''properties'', JStr ''abc'')]
     = Inl AttributeError
   \<and> import_nodes ([[(''schema'', JStr ''Company''), (''properties'', JStr ''abc'')]], None) 5000
        \<lparr> nodes = [], rels = [] \<rparr>
     = Inl AttributeError"
  by code_simp

text \<open>
  C5, amended. For a record whose \<open>properties\<close> is a dict, or is missing or falsy, the
  classifier returns without raising and yields at most one row, decided by \<open>schema\<close>:
  a Company or Person record yields a node row of that kind whose name is the first
  element of the \<open>name\<close> list if there is one and nothing otherwise, and is dropped when
  its identifier is missing; a Directorship record yields a DIRECTORSHIP row from the
  first values of \<open>director\<close> and \<open>organization\<close>, an Ownership record an OWNERSHIP row
  from the first values of \<open>owner\<close> and \<open>asset\<close>, and neither yields a row when one of
  the two is missing. A record of any other schema yields no row, whatever its
  \<open>properties\<close>. For a Company, Person, Directorship or Ownership record whose
  \<open>properties\<close> is truthy and not a dict the classifier raises \<open>AttributeError\<close>, with or
  without an identifier.
\<close>

theorem classifier_rows:
  "(py_or (dict_get entity ''properties'') (JObj []) = JObj props \<longrightarrow>
      (dict_get entity ''schema'' = JStr ''Company'' \<longrightarrow>
            import_nodes_row entity =
              Inr (if truthy (dict_get entity ''id'')
                   then Some (Company,
                     \<lparr> row_id = dict_get entity ''id'', row_schema = JStr ''Company'',
                       row_name = first_value (dict_get props ''name''),
                       row_datasets = py_or (dict_get entity ''datasets'') (JList []),
                       row_modified_at =
                         py_or (dict_get entity ''modifiedAt'') (dict_get entity ''modified_at'') \<rparr>)
                   else None))
    \<and> (dict_get entity ''schema'' = JStr ''Person'' \<longrightarrow>
            import_nodes_row entity =
              Inr (if truthy (dict_get entity ''id'')
                   then Some (Person,
                     \<lparr> row_id = dict_get entity ''id'', row_schema = JStr ''Person'',
                       row_name = first_value (dict_get props ''name''),
                       row_datasets = py_or (dict_get entity ''datasets'') (JList []),
                       row_modified_at =
                         py_or (dict_get entity ''modifiedAt'') (dict_get entity ''modified_at'') \<rparr>)
                   else None))
    \<and> (dict_get entity ''schema'' = JStr ''Directorship'' \<longrightarrow>
            to_rel_row entity =
              Inr (if truthy (first_value (dict_get props ''director''))
                      \<and> truthy (first_value (dict_get props ''organization''))
                   then Some (DIRECTORSHIP,
                     \<lparr> rel_id = dict_get entity ''id'', rel_schema = JStr ''Directorship'',
                       rel_source_id = first_value (dict_get props ''director''),
                       rel_target_id = first_value (dict_get props ''organization''),
                       rel_datasets = py_or (dict_get entity ''datasets'') (JList []),
                       rel_modified_at =
                         py_or (dict_get entity ''modifiedAt'') (dict_get entity ''modified_at'') \<rparr>)
                   else None))
    \<and> (dict_get entity ''schema'' = JStr ''Ownership'' \<longrightarrow>
            to_rel_row entity =
              Inr (if truthy (first_value (dict_get props ''owner''))
                      \<and> truthy (first_value (dict_get props ''asset''))
                   then Some (OWNERSHIP,
                     \<lparr> rel_id = dict_get entity ''id'', rel_schema = JStr ''Ownership'',
                       rel_source_id = first_value (dict_get props ''owner''),
                       rel_target_id = first_value (dict_get props ''asset''),
                       rel_datasets = py_or (dict_get entity ''datasets'') (JList []),
                       rel_modified_at =
                         py_or (dict_get entity ''modifiedAt'') (dict_get entity ''modified_at'') \<rparr>)
                   else None)))
    \<and> (dict_get entity ''schema'' \<noteq> JStr ''Company'' \<and> dict_get entity ''schema'' \<noteq> JStr ''Person''
          \<longrightarrow> import_nodes_row entity = Inr None)
    \<and> (dict_get entity ''schema'' \<noteq> JStr ''Directorship''
          \<and> dict_get entity ''schema'' \<noteq> JStr ''Ownership''
          \<longrightarrow> to_rel_row entity = Inr None \<and> import_relationships_row entity = Inr None)
    \<and> (\<not> dict_properties entity \<longrightarrow>
          (dict_get entity ''schema'' = JStr ''Company'' \<or> dict_get entity ''schema'' = JStr ''Person''
             \<longrightarrow> to_node_row entity = Inl AttributeError
                 \<and> import_nodes_row entity = Inl AttributeError)
        \<and> (dict_get entity ''schema'' = JStr ''Directorship''
             \<or> dict_get entity ''schema'' = JStr ''Ownership''
             \<longrightarrow> to_rel_row entity = Inl AttributeError
                 \<and> import_relationships_row entity = Inl AttributeError))"
proof -
  have A: "py_or (dict_get entity ''properties'') (JObj []) = JObj props \<longrightarrow>
      (dict_get entity ''schema'' = JStr ''Company'' \<longrightarrow>
            import_nodes_row entity =
              Inr (if truthy (dict_get entity ''id'')
                   then Some (Company,
                     \<lparr> row_id = dict_get entity ''id'', row_schema = JStr ''Company'',
                       row_name = first_value (dict_get props ''name''),
                       row_datasets = py_or (dict_get entity ''datasets'') (JList []),
                       row_modified_at =
                         py_or (dict_get entity ''modifiedAt'') (dict_get entity ''modified_at'') \<rparr>)
                   else None))
    \<and> (dict_get entity ''schema'' = JStr ''Person'' \<longrightarrow>
            import_nodes_row entity =
              Inr (if truthy (dict_get entity ''id'')
                   then Some (Person,
                     \<lparr> row_id = dict_get entity ''id'', row_schema = JStr ''Person'',
                       row_name = first_value (dict_get props ''name''),
                       row_datasets = py_or (dict_get entity ''datasets'') (JList []),
                       row_modified_at =
                         py_or (dict_get entity ''modifiedAt'') (dict_get entity ''modified_at'') \<rparr>)
                   else None))
    \<and> (dict_get entity ''schema'' = JStr ''Directorship'' \<longrightarrow>
            to_rel_row entity =
              Inr (if truthy (first_value (dict_get props ''director''))
                      \<and> truthy (first_value (dict_get props ''organization''))
                   then Some (DIRECTORSHIP,
                     \<lparr> rel_id = dict_get entity ''id'', rel_schema = JStr ''Directorship'',
                       rel_source_id = first_value (dict_get props ''director''),
                       rel_target_id = first_value (dict_get props ''organization''),
                       rel_datasets = py_or (dict_get entity ''datasets'') (JList []),
                       rel_modified_at =
                         py_or (dict_get entity ''modifiedAt'') (dict_get entity ''modified_at'') \<rparr>)
                   else None))
    \<and> (dict_get entity ''schema'' = JStr ''Ownership'' \<longrightarrow>
            to_rel_row entity =
              Inr (if truthy (first_value (dict_get props ''owner''))
                      \<and> truthy (first_value (dict_get props ''asset''))
                   then Some (OWNERSHIP,
                     \<lparr> rel_id = dict_get entity ''id'', rel_schema = JStr ''Ownership'',
                       rel_source_id = first_value (dict_get props ''owner''),
                       rel_target_id = first_value (dict_get props ''asset''),
                       rel_datasets = py_or (dict_get entity ''datasets'') (JList []),
                       rel_modified_at =
                         py_or (dict_get entity ''modifiedAt'') (dict_get entity ''modified_at'') \<rparr>)
                   else None))"
  proof
    assume props: "py_or (dict_get entity ''properties'') (JObj []) = JObj props"
    have pf: "\<And>k. prop_first entity k = Inr (first_value (dict_get props k))"
      using prop_first_dict[OF props] by simp
    have 1: "dict_get entity ''schema'' = JStr ''Company'' \<longrightarrow>
            import_nodes_row entity =
              Inr (if truthy (dict_get entity ''id'')
                   then Some (Company,
                     \<lparr> row_id = dict_get entity ''id'', row_schema = JStr ''Company'',
                       row_name = first_value (dict_get props ''name''),
                       row_datasets = py_or (dict_get entity ''datasets'') (JList []),
                       row_modified_at =
                         py_or (dict_get entity ''modifiedAt'') (dict_get entity ''modified_at'') \<rparr>)
                   else None)"
      by (simp add: import_nodes_row_def to_node_row_def pf)
    have 2: "dict_get entity ''schema'' = JStr ''Person'' \<longrightarrow>
            import_nodes_row entity =
              Inr (if truthy (dict_get entity ''id'')
                   then Some (Person,
                     \<lparr> row_id = dict_get entity ''id'', row_schema = JStr ''Person'',
                       row_name = first_value (dict_get props ''name''),
                       row_datasets = py_or (dict_get entity ''datasets'') (JList []),
                       row_modified_at =
                         py_or (dict_get entity ''modifiedAt'') (dict_get entity ''modified_at'') \<rparr>)
                   else None)"
      by (simp add: import_nodes_row_def to_node_row_def pf)
    have 3: "dict_get entity ''schema'' = JStr ''Directorship'' \<longrightarrow>
            to_rel_row entity =
              Inr (if truthy (first_value (dict_get props ''director''))
                      \<and> truthy (first_value (dict_get props ''organization''))
                   then Some (DIRECTORSHIP,
                     \<lparr> rel_id = dict_get entity ''id'', rel_schema = JStr ''Directorship'',
                       rel_source_id = first_value (dict_get props ''director''),
                       rel_target_id = first_value (dict_get props ''organization''),
                       rel_datasets = py_or (dict_get entity ''datasets'') (JList []),
                       rel_modified_at =
                         py_or (dict_get entity ''modifiedAt'') (dict_get entity ''modified_at'') \<rparr>)
                   else None)"
      by (simp add: to_rel_row_def rel_row_of_def pf)
    have 4: "dict_get entity ''schema'' = JStr ''Ownership'' \<longrightarrow>
            to_rel_row entity =
              Inr (if truthy (first_value (dict_get props ''owner''))
                      \<and> truthy (first_value (dict_get props ''asset''))
                   then Some (OWNERSHIP,
                     \<lparr> rel_id = dict_get entity ''id'', rel_schema = JStr ''Ownership'',
                       rel_source_id = first_value (dict_get props ''owner''),
                       rel_target_id = first_value (dict_get props ''asset''),
                       rel_datasets = py_or (dict_get entity ''datasets'') (JList []),
                       rel_modified_at =
                         py_or (dict_get entity ''modifiedAt'') (dict_get entity ''modified_at'') \<rparr>)
                   else None)"
      by (simp add: to_rel_row_def rel_row_of_def pf)
    from 1 2 3 4 show "(dict_get entity ''schema'' = JStr ''Company'' \<longrightarrow>
            import_nodes_row entity =
              Inr (if truthy (dict_get entity ''id'')
                   then Some (Company,
                     \<lparr> row_id = dict_get entity ''id'', row_schema = JStr ''Company'',
                       row_name = first_value (dict_get props ''name''),
                       row_datasets = py_or (dict_get entity ''datasets'') (JList []),
                       row_modified_at =
                         py_or (dict_get entity ''modifiedAt'') (dict_get entity ''modified_at'') \<rparr>)
                   else None))
    \<and> (dict_get entity ''schema'' = JStr ''Person'' \<longrightarrow>
            import_nodes_row entity =
              Inr (if truthy (dict_get entity ''id'')
                   then Some (Person,
                     \<lparr> row_id = dict_get entity ''id'', row_schema = JStr ''Person'',
                       row_name = first_value (dict_get props ''name''),
                       row_datasets = py_or (dict_get entity ''datasets'') (JList []),
                       row_modified_at =
                         py_or (dict_get entity ''modifiedAt'') (dict_get entity ''modified_at'') \<rparr>)
                   else None))
    \<and> (dict_get entity ''schema'' = JStr ''Directorship'' \<longrightarrow>
            to_rel_row entity =
              Inr (if truthy (first_value (dict_get props ''director''))
                      \<and> truthy (first_value (dict_get props ''organization''))
                   then Some (DIRECTORSHIP,
                     \<lparr> rel_id = dict_get entity ''id'', rel_schema = JStr ''Directorship'',
                       rel_source_id = first_value (dict_get props ''director''),
                       rel_target_id = first_value (dict_get props ''organization''),
                       rel_datasets = py_or (dict_get entity ''datasets'') (JList []),
                       rel_modified_at =
                         py_or (dict_get entity ''modifiedAt'') (dict_get entity ''modified_at'') \<rparr>)
                   else None))
    \<and> (dict_get entity ''schema'' = JStr ''Ownership'' \<longrightarrow>
            to_rel_row entity =
              Inr (if truthy (first_value (dict_get props ''owner''))
                      \<and> truthy (first_value (dict_get props ''asset''))
                   then Some (OWNERSHIP,
                     \<lparr> rel_id = dict_get entity ''id'', rel_schema = JStr ''Ownership'',
                       rel_source_id = first_value (dict_get props ''owner''),
                       rel_target_id = first_value (dict_get props ''asset''),
                       rel_datasets = py_or (dict_get entity ''datasets'') (JList []),
                       rel_modified_at =
                         py_or (dict_get entity ''modifiedAt'') (dict_get entity ''modified_at'') \<rparr>)
                   else None))"
      by (intro conjI)
  qed
  have 5: "dict_get entity ''schema'' \<noteq> JStr ''Company'' \<and> dict_get entity ''schema'' \<noteq> JStr ''Person''
          \<longrightarrow> import_nodes_row entity = Inr None"
    by (simp add: import_nodes_row_def)
  have 6: "dict_get entity ''schema'' \<noteq> JStr ''Directorship''
          \<and> dict_get entity ''schema'' \<noteq> JStr ''Ownership''
          \<longrightarrow> to_rel_row entity = Inr None \<and> import_relationships_row entity = Inr None"
    by (simp add: to_rel_row_def import_relationships_row_def)
  have 7: "\<not> dict_properties entity \<longrightarrow>
          (dict_get entity ''schema'' = JStr ''Company'' \<or> dict_get entity ''schema'' = JStr ''Person''
             \<longrightarrow> to_node_row entity = Inl AttributeError
                 \<and> import_nodes_row entity = Inl AttributeError)
        \<and> (dict_get entity ''schema'' = JStr ''Directorship''
             \<or> dict_get entity ''schema'' = JStr ''Ownership''
             \<longrightarrow> to_rel_row entity = Inl AttributeError
                 \<and> import_relationships_row entity = Inl AttributeError)"
  proof
    assume "\<not> dict_properties entity"
    then have pf: "\<And>k. prop_first entity k = Inl AttributeError"
      by (rule prop_first_no_dict)
    have n: "to_node_row entity = Inl AttributeError" by (simp add: to_node_row_def pf)
    have a: "dict_get entity ''schema'' = JStr ''Company'' \<or> dict_get entity ''schema'' = JStr ''Person''
             \<longrightarrow> to_node_row entity = Inl AttributeError
                 \<and> import_nodes_row entity = Inl AttributeError"
      using n by (auto simp: import_nodes_row_def)
    have b: "dict_get entity ''schema'' = JStr ''Directorship''
             \<or> dict_get entity ''schema'' = JStr ''Ownership''
             \<longrightarrow> to_rel_row entity = Inl AttributeError
                 \<and> import_relationships_row entity = Inl AttributeError"
      by (auto simp: import_relationships_row_def to_rel_row_def pf)
    from a b show "(dict_get entity ''schema'' = JStr ''Company'' \<or> dict_get entity ''schema'' = JStr ''Person''
             \<longrightarrow> to_node_row entity = Inl AttributeError
                 \<and> import_nodes_row entity = Inl AttributeError)
        \<and> (dict_get entity ''schema'' = JStr ''Directorship''
             \<or> dict_get entity ''schema'' = JStr ''Ownership''
             \<longrightarrow> to_rel_row entity = Inl AttributeError
                 \<and> import_relationships_row entity = Inl AttributeError)" by (rule conjI)
  qed
  from A 5 6 7 show ?thesis by (intro conjI)
qed

theorem classifier_rows_witness:
  "import_nodes_row [(''id'', JStr ''C1''), (''schema'', JStr ''Company''),
        (''properties'', JObj [(''name'', JList [JStr ''Acme'', JStr ''Acme Ltd''])])]
     = Inr (Some (Company,
         \<lparr> row_id = JStr ''C1'', row_schema = JStr ''Company'', row_name = JStr ''Acme'',
           row_datasets = JList [], row_modified_at = JNull \<rparr>))
   \<and> import_nodes_row [(''schema'', JStr ''Person''),
        (''properties'', JObj [(''name'', JList [JStr ''Jane''])])] = Inr None
   \<and> to_rel_row [(''id'', JStr ''D1''), (''schema'', JStr ''Directorship''),
        (''properties'', JObj [(''director'', JList [JStr ''P1'']),
                               (''organization'', JList [JStr ''C1''])])]
     = Inr (Some (DIRECTORSHIP,
         \<lparr> rel_id = JStr ''D1'', rel_schema = JStr ''Directorship'',
           rel_source_id = JStr ''P1'', rel_target_id = JStr ''C1'',
           rel_datasets = JList [], rel_modified_at = JNull \<rparr>))
   \<and> to_rel_row [(''id'', JStr ''O1''), (''schema'', JStr ''Ownership''),
        (''properties'', JObj [(''owner'', JList [JStr ''P1''])])] = Inr None
   \<and> import_nodes_row [(''id'', JStr ''X1''), (''schema'', JStr ''Address'')] = Inr None
   \<and> to_rel_row [(''id'', JStr ''X1''), (''schema'', JStr ''Address'')] = Inr None
   \<and> to_rel_row [(''id'', JStr ''O2''), (''schema'', JStr ''Ownership''),
        (''properties'', JList [JInt 1])] = Inl AttributeError"
  using classifier_rows
          [of "[(''id'', JStr ''C1''), (''schema'', JStr ''Company''),
                (''properties'', JObj [(''name'', JList [JStr ''Acme'', JStr ''Acme Ltd''])])]"
              "[(''name'', JList [JStr ''Acme'', JStr ''Acme Ltd''])]"]
        classifier_rows
          [of "[(''schema'', JStr ''Person''),
                (''properties'', JObj [(''name'', JList [JStr ''Jane''])])]"
              "[(''name'', JList [JStr ''Jane''])]"]
        classifier_rows
          [of "[(''id'', JStr ''D1''), (''schema'', JStr ''Directorship''),
                (''properties'', JObj [(''director'', JList [JStr ''P1'']),
                               (''organization'', JList [JStr ''C1''])])]"
              "[(''director'', JList [JStr ''P1'']), (''organization'', JList [JStr ''C1''])]"]
        classifier_rows
          [of "[(''id'', JStr ''O1''), (''schema'', JStr ''Ownership''),
                (''properties'', JObj [(''owner'', JList [JStr ''P1''])])]"
              "[(''owner'', JList [JStr ''P1''])]"]
        classifier_rows
          [of "[(''id'', JStr ''X1''), (''schema'', JStr ''Address'')]" "[]"]
        classifier_rows
          [of "[(''id'', JStr ''O2''), (''schema'', JStr ''Ownership''),
                (''properties'', JList [JInt 1])]" "[]"]
  by (simp add: dict_get_def py_or_def first_value_def dict_properties_def)

section \<open>Properties of MERGE with SET\<close>

lemma merge_laws_match: "merge_laws m a \<Longrightarrow> m r (a r' x) = m r x"
  by (simp add: merge_laws_def)

lemma merge_laws_assign: "merge_laws m a \<Longrightarrow> a r (a r' x) = a r x"
  by (simp add: merge_laws_def)

lemma merge_set_upd:
  "merge_set m a c r xs = (if \<exists>x \<in> set xs. m r x then map (upd m a r) xs else xs @ [a r (c r)])"
  by (simp add: merge_set_def upd_def)

lemma fold_upd_matches:
  assumes L: "merge_laws m a"
  shows "m r (fold (upd m a) rs x) = m r x"
  by (induction rs arbitrary: x) (simp_all add: upd_def merge_laws_match[OF L])

lemma assign_fold_upd:
  assumes L: "merge_laws m a"
  shows "a r (fold (upd m a) rs x) = a r x"
  by (induction rs arbitrary: x) (simp_all add: upd_def merge_laws_assign[OF L])

lemma merge_set_fold_existing:
  assumes L: "merge_laws m a"
    and ex: "\<forall>r \<in> set rs. \<exists>x \<in> set xs. m r x"
  shows "fold (merge_set m a c) rs xs = map (fold (upd m a) rs) xs"
  using ex
proof (induction rs arbitrary: xs)
  case Nil
  then show ?case by simp
next
  case (Cons r rs)
  have step: "merge_set m a c r xs = map (upd m a r) xs"
    using Cons.prems by (simp add: merge_set_upd)
  have "\<forall>q \<in> set rs. \<exists>x \<in> set (map (upd m a r) xs). m q x"
  proof
    fix q assume "q \<in> set rs"
    then obtain x where "x \<in> set xs" "m q x" using Cons.prems by auto
    then have "m q (upd m a r x)" by (simp add: upd_def merge_laws_match[OF L])
    then show "\<exists>x \<in> set (map (upd m a r) xs). m q x" using \<open>x \<in> set xs\<close> by auto
  qed
  then have "fold (merge_set m a c) rs (map (upd m a r) xs) = map (fold (upd m a) rs) (map (upd m a r) xs)"
    by (rule Cons.IH)
  then show ?case by (simp add: step comp_def)
qed

lemma merge_set_keeps_match:
  assumes L: "merge_laws m a"
    and "\<exists>x \<in> set xs. m q x"
  shows "\<exists>x \<in> set (merge_set m a c r xs). m q x"
proof -
  from assms(2) obtain x where x: "x \<in> set xs" "m q x" by auto
  show ?thesis
  proof (cases "\<exists>y \<in> set xs. m r y")
    case True
    have "m q (upd m a r x)" using x by (simp add: upd_def merge_laws_match[OF L])
    then show ?thesis using True x by (auto simp: merge_set_upd)
  next
    case False
    then show ?thesis using x by (auto simp: merge_set_upd)
  qed
qed

lemma merge_set_makes_match:
  assumes L: "merge_laws m a"
    and P3: "m r (c r)"
  shows "\<exists>x \<in> set (merge_set m a c r xs). m r x"
proof (cases "\<exists>y \<in> set xs. m r y")
  case True
  then show ?thesis using merge_set_keeps_match[OF L True] by simp
next
  case False
  then show ?thesis using P3 by (simp add: merge_set_upd merge_laws_match[OF L])
qed

lemma fold_merge_set_keeps_match:
  assumes L: "merge_laws m a"
  shows "\<exists>x \<in> set xs. m q x \<Longrightarrow> \<exists>x \<in> set (fold (merge_set m a c) rs xs). m q x"
proof (induction rs arbitrary: xs)
  case Nil then show ?case by simp
next
  case (Cons r rs)
  show ?case using Cons.IH[OF merge_set_keeps_match[OF L Cons.prems]] by simp
qed

lemma fold_merge_set_all_match:
  assumes L: "merge_laws m a"
    and P3: "\<forall>r \<in> set rs. m r (c r)"
  shows "\<forall>r \<in> set rs. \<exists>x \<in> set (fold (merge_set m a c) rs xs). m r x"
  using P3
proof (induction rs arbitrary: xs)
  case Nil then show ?case by simp
next
  case (Cons r rs)
  have a: "\<exists>x \<in> set (merge_set m a c r xs). m r x"
    using merge_set_makes_match[OF L] Cons.prems by simp
  have "\<exists>x \<in> set (fold (merge_set m a c) rs (merge_set m a c r xs)). m r x"
    by (rule fold_merge_set_keeps_match[OF L a])
  moreover have "\<forall>q \<in> set rs. \<exists>x \<in> set (fold (merge_set m a c) rs (merge_set m a c r xs)). m q x"
    using Cons.IH Cons.prems by simp
  ultimately show ?case by simp
qed

lemma fold_merge_set_settled:
  assumes L: "merge_laws m a"
    and P3: "\<forall>r \<in> set rs. m r (c r)"
  shows "\<forall>x \<in> set (fold (merge_set m a c) rs xs). fold (upd m a) rs x = x"
  using P3
proof (induction rs rule: rev_induct)
  case Nil then show ?case by simp
next
  case (snoc r rs)
  let ?t = "fold (merge_set m a c) rs xs"
  have IH: "\<forall>x \<in> set ?t. fold (upd m a) rs x = x" using snoc by simp
  have mr: "m r (c r)" using snoc.prems by simp
  show ?case
  proof
    fix x assume "x \<in> set (fold (merge_set m a c) (rs @ [r]) xs)"
    then have xin: "x \<in> set (merge_set m a c r ?t)" by simp
    have goal: "upd m a r (fold (upd m a) rs x) = x"
    proof (cases "\<exists>y \<in> set ?t. m r y")
      case True
      with xin obtain n where n: "n \<in> set ?t" "x = upd m a r n" by (auto simp: merge_set_upd)
      show ?thesis
      proof (cases "m r n")
        case True
        then have x: "x = a r n" using n by (simp add: upd_def)
        have "m r (fold (upd m a) rs x)" using True x by (simp add: fold_upd_matches[OF L] merge_laws_match[OF L])
        then have "upd m a r (fold (upd m a) rs x) = a r (fold (upd m a) rs x)" by (simp add: upd_def)
        also have "\<dots> = a r x" by (rule assign_fold_upd[OF L])
        also have "\<dots> = x" using x by (simp add: merge_laws_assign[OF L])
        finally show ?thesis .
      next
        case False
        then have "x = n" using n by (simp add: upd_def)
        then show ?thesis using IH n False by (simp add: upd_def)
      qed
    next
      case False
      with xin have "x \<in> set ?t \<or> x = a r (c r)" by (auto simp: merge_set_upd)
      then show ?thesis
      proof
        assume "x \<in> set ?t"
        then show ?thesis using IH False by (auto simp: upd_def)
      next
        assume x: "x = a r (c r)"
        have "m r (fold (upd m a) rs x)" using mr x by (simp add: fold_upd_matches[OF L] merge_laws_match[OF L])
        then have "upd m a r (fold (upd m a) rs x) = a r (fold (upd m a) rs x)" by (simp add: upd_def)
        also have "\<dots> = a r x" by (rule assign_fold_upd[OF L])
        also have "\<dots> = x" using x by (simp add: merge_laws_assign[OF L])
        finally show ?thesis .
      qed
    qed
    then show "fold (upd m a) (rs @ [r]) x = x" by simp
  qed
qed

lemma fold_merge_set_idem:
  assumes L: "merge_laws m a"
    and P3: "\<forall>r \<in> set rs. m r (c r)"
  shows "fold (merge_set m a c) rs (fold (merge_set m a c) rs xs) = fold (merge_set m a c) rs xs"
proof -
  let ?t = "fold (merge_set m a c) rs xs"
  have "fold (merge_set m a c) rs ?t = map (fold (upd m a) rs) ?t"
    by (rule merge_set_fold_existing[OF L fold_merge_set_all_match[OF L P3]])
  also have "\<dots> = ?t"
    using fold_merge_set_settled[OF L P3, of xs] by (simp add: map_idI)
  finally show ?thesis .
qed

section \<open>The reader\<close>

lemma first_non_ws_dropWhile:
  "first_non_ws chunk =
     (case dropWhile (\<lambda>b. b = 9 \<or> b = 10 \<or> b = 13 \<or> b = 32) chunk of
        [] \<Rightarrow> None | b # rest \<Rightarrow> Some b)"
  by (induction chunk) auto

lemma dicts_filter: "map JObj (dicts vs) = filter (\<lambda>v. \<exists>d. v = JObj d) vs"
  by (induction vs rule: dicts.induct) auto

text \<open>
  C8. The reader looks at the first byte of the first 4096 that is not a tab, line feed,
  carriage return or space. When there is none it yields nothing. When it is \<open>[\<close> the
  file is parsed as one array, its items being produced; otherwise it is parsed as a
  sequence of top-level values. In both modes exactly the values that are objects are
  yielded, in order.
\<close>

theorem reader_mode:
  "iter_entities ijson_items file =
     (case dropWhile (\<lambda>b. b = 9 \<or> b = 10 \<or> b = 13 \<or> b = 32) (take 4096 file) of
        [] \<Rightarrow> ([], None)
      | b # rest \<Rightarrow>
          if b = 91
          then (dicts (fst (ijson_items ''item'' False file)), snd (ijson_items ''item'' False file))
          else (dicts (fst (ijson_items [] True file)), snd (ijson_items [] True file)))
   \<and> map JObj (dicts vs) = filter (\<lambda>v. \<exists>d. v = JObj d) vs"
proof -
  have "first_non_ws_byte file 4096 =
      (case dropWhile (\<lambda>b. b = 9 \<or> b = 10 \<or> b = 13 \<or> b = 32) (take 4096 file) of
         [] \<Rightarrow> None | b # rest \<Rightarrow> Some b)"
    by (simp add: first_non_ws_byte_def first_non_ws_dropWhile)
  then show ?thesis
    by (cases "dropWhile (\<lambda>b. b = 9 \<or> b = 10 \<or> b = 13 \<or> b = 32) (take 4096 file)")
       (simp_all add: iter_entities_def dicts_filter split: prod.splits
          del: dropWhile_eq_Nil_conv)
qed

theorem reader_mode_witness:
  "iter_entities (\<lambda>prefix multiple file.
       if prefix = ''item'' \<and> \<not> multiple then ([JObj [(''id'', JStr ''a'')], JInt 1], None)
       else ([], Some JSONError)) [32, 10, 91, 123, 125, 93]
     = ([[(''id'', JStr ''a'')]], None)
   \<and> iter_entities (\<lambda>prefix multiple file.
       if prefix = [] \<and> multiple then ([JStr ''x'', JObj [(''id'', JStr ''b'')]], None)
       else ([], Some JSONError)) [32, 123, 125, 10, 123, 125]
     = ([[(''id'', JStr ''b'')]], None)
   \<and> iter_entities (\<lambda>prefix multiple file. ([JObj []], None)) [32, 10, 9, 13] = ([], None)"
  using reader_mode
          [of "\<lambda>prefix multiple file.
       if prefix = ''item'' \<and> \<not> multiple then ([JObj [(''id'', JStr ''a'')], JInt 1], None)
       else ([], Some JSONError)" "[32, 10, 91, 123, 125, 93]" "[]"]
        reader_mode
          [of "\<lambda>prefix multiple file.
       if prefix = [] \<and> multiple then ([JStr ''x'', JObj [(''id'', JStr ''b'')]], None)
       else ([], Some JSONError)" "[32, 123, 125, 10, 123, 125]" "[]"]
        reader_mode
          [of "\<lambda>prefix multiple file. ([JObj []], None)" "[32, 10, 9, 13]" "[]"]
  by simp

section \<open>Search\<close>













section \<open>Dangling edges\<close>

lemma optional_match_unresolved: "\<not> resolves v ns \<Longrightarrow> optional_match l v ns = [None]"
proof -
  assume u: "\<not> resolves v ns"
  have "filter (\<lambda>i. n_label (ns ! i) = l \<and> prop_eq (n_ftm_id (ns ! i)) v) [0..<length ns] = []"
  proof (rule filter_False, rule ballI)
    fix i assume "i \<in> set [0..<length ns]"
    then have "ns ! i \<in> set ns" by simp
    then have "\<not> prop_eq (n_ftm_id (ns ! i)) v" using u by (cases "n_label (ns ! i)") (auto simp: resolves_def)
    then show "\<not> (n_label (ns ! i) = l \<and> prop_eq (n_ftm_id (ns ! i)) v)" by simp
  qed
  then show ?thesis by (simp add: optional_match_def)
qed

lemma endpoint_unresolved: "\<not> resolves v ns \<Longrightarrow> endpoint v ns = [None]"
  by (simp add: endpoint_def optional_match_unresolved coalesce_def)

lemma rel_bindings_unresolved:
  "\<not> resolves (rel_source_id row) ns \<or> \<not> resolves (rel_target_id row) ns \<Longrightarrow>
   rel_bindings row ns = []"
proof (erule disjE)
  assume "\<not> resolves (rel_source_id row) ns"
  then show ?thesis by (simp add: rel_bindings_def endpoint_unresolved)
next
  assume "\<not> resolves (rel_target_id row) ns"
  then show ?thesis by (simp add: rel_bindings_def endpoint_unresolved split: option.splits)
qed

lemma rel_cypher_row_unresolved:
  "\<not> resolves (rel_source_id row) (nodes s) \<or> \<not> resolves (rel_target_id row) (nodes s) \<Longrightarrow>
   rel_cypher_row ty row s = s"
  by (simp add: rel_cypher_row_def rel_bindings_unresolved)

lemma nodes_rel_cypher_row: "nodes (rel_cypher_row ty row s) = nodes s"
  by (simp add: rel_cypher_row_def)

lemma nodes_REL_CYPHER: "nodes (REL_CYPHER ty batch s) = nodes s"
  unfolding REL_CYPHER_def by (induction batch arbitrary: s) (simp_all add: nodes_rel_cypher_row)

lemma optional_match_Some:
  assumes "Some a \<in> set (optional_match l v ns)"
  shows "a < length ns \<and> prop_eq (n_ftm_id (ns ! a)) v"
proof -
  let ?f = "filter (\<lambda>i. n_label (ns ! i) = l \<and> prop_eq (n_ftm_id (ns ! i)) v) [0..<length ns]"
  have "a \<in> set ?f"
  proof (cases ?f)
    case Nil
    then have "optional_match l v ns = [None]" by (simp add: optional_match_def)
    then show ?thesis using assms by simp
  next
    case (Cons i rest)
    then have "optional_match l v ns = map Some ?f" by (simp add: optional_match_def)
    then have "Some a \<in> Some ` set ?f" using assms by simp
    then show ?thesis by blast
  qed
  then show ?thesis by simp
qed

lemma endpoint_Some:
  assumes "Some a \<in> set (endpoint v ns)"
  shows "a < length ns \<and> prop_eq (n_ftm_id (ns ! a)) v"
proof -
  from assms obtain p c where p: "p \<in> set (optional_match Person v ns)"
    and c: "c \<in> set (optional_match Company v ns)" and co: "coalesce p c = Some a"
    by (auto simp: endpoint_def)
  then have "p = Some a \<or> c = Some a" by (auto simp: coalesce_def split: option.splits)
  then show ?thesis using p c optional_match_Some by blast
qed

lemma rel_bindings_resolved:
  assumes "(a, b) \<in> set (rel_bindings row ns)"
  shows "a < length ns \<and> prop_eq (n_ftm_id (ns ! a)) (rel_source_id row)
       \<and> b < length ns \<and> prop_eq (n_ftm_id (ns ! b)) (rel_target_id row)"
proof -
  from assms have "Some a \<in> set (endpoint (rel_source_id row) ns)
      \<and> Some b \<in> set (endpoint (rel_target_id row) ns)"
    by (auto simp: rel_bindings_def split: option.splits)
  then show ?thesis using endpoint_Some by blast
qed

lemma merge_rel_touched:
  assumes ab: "a < length ns \<and> prop_eq (n_ftm_id (ns ! a)) (rel_source_id row)
       \<and> b < length ns \<and> prop_eq (n_ftm_id (ns ! b)) (rel_target_id row)"
    and r: "r \<in> set (merge_set rel_matches rel_assign rel_create (ty, row, a, b) rs)"
  shows "r \<in> set rs \<or> joins row ns r"
proof (cases "\<exists>x \<in> set rs. rel_matches (ty, row, a, b) x")
  case True
  with r obtain x where x: "x \<in> set rs"
      "r = (if rel_matches (ty, row, a, b) x then rel_assign (ty, row, a, b) x else x)"
    by (auto simp: merge_set_def)
  show ?thesis
  proof (cases "rel_matches (ty, row, a, b) x")
    case True
    then have "joins row ns r" using x ab by (simp add: joins_def rel_matches_def rel_assign_def)
    then show ?thesis ..
  next
    case False
    then show ?thesis using x by simp
  qed
next
  case False
  with r have "r \<in> set rs \<or> r = rel_assign (ty, row, a, b) (rel_create (ty, row, a, b))"
    by (auto simp: merge_set_def)
  then show ?thesis using ab by (auto simp: joins_def rel_assign_def rel_create_def)
qed

lemma fold_merge_rel_touched:
  assumes "\<forall>(a, b) \<in> set bs. a < length ns \<and> prop_eq (n_ftm_id (ns ! a)) (rel_source_id row)
       \<and> b < length ns \<and> prop_eq (n_ftm_id (ns ! b)) (rel_target_id row)"
    and "r \<in> set (fold (\<lambda>ab. merge_set rel_matches rel_assign rel_create (ty, row, ab)) bs rs)"
  shows "r \<in> set rs \<or> joins row ns r"
  using assms
proof (induction bs arbitrary: rs)
  case Nil
  then show ?case by simp
next
  case (Cons ab bs)
  obtain a b where ab: "ab = (a, b)" by (cases ab)
  have "r \<in> set (merge_set rel_matches rel_assign rel_create (ty, row, a, b) rs) \<or> joins row ns r"
    using Cons.IH[of "merge_set rel_matches rel_assign rel_create (ty, row, a, b) rs"] Cons.prems ab
    by simp
  then show ?case using merge_rel_touched[of a ns row b r ty rs] Cons.prems(1) ab by auto
qed

lemma rel_cypher_row_touched:
  assumes "r \<in> set (rels (rel_cypher_row ty row s))"
  shows "r \<in> set (rels s) \<or> joins row (nodes s) r"
proof -
  have "\<forall>(a, b) \<in> set (rel_bindings row (nodes s)).
      a < length (nodes s) \<and> prop_eq (n_ftm_id (nodes s ! a)) (rel_source_id row)
       \<and> b < length (nodes s) \<and> prop_eq (n_ftm_id (nodes s ! b)) (rel_target_id row)"
    using rel_bindings_resolved by blast
  then show ?thesis using fold_merge_rel_touched[of "rel_bindings row (nodes s)" "nodes s" row r ty "rels s"] assms
    by (simp add: rel_cypher_row_def)
qed

lemma REL_CYPHER_touched:
  "r \<in> set (rels (REL_CYPHER ty batch s)) \<Longrightarrow>
   r \<in> set (rels s) \<or> (\<exists>row \<in> set batch. joins row (nodes s) r)"
proof (induction batch arbitrary: s)
  case Nil
  then show ?case by (simp add: REL_CYPHER_def)
next
  case (Cons row batch)
  have "REL_CYPHER ty (row # batch) s = REL_CYPHER ty batch (rel_cypher_row ty row s)"
    by (simp add: REL_CYPHER_def)
  then have "r \<in> set (rels (rel_cypher_row ty row s))
      \<or> (\<exists>row' \<in> set batch. joins row' (nodes (rel_cypher_row ty row s)) r)"
    using Cons by simp
  then show ?case using rel_cypher_row_touched[of r ty row s] by (auto simp: nodes_rel_cypher_row)
qed

lemma REL_CYPHER_drop:
  assumes "\<not> resolves (rel_source_id row) (nodes s) \<or> \<not> resolves (rel_target_id row) (nodes s)"
  shows "REL_CYPHER ty (before @ row # after) s = REL_CYPHER ty (before @ after) s"
proof -
  have n: "nodes (fold (rel_cypher_row ty) before s) = nodes s"
    using nodes_REL_CYPHER[of ty before s] by (simp add: REL_CYPHER_def)
  have "rel_cypher_row ty row (fold (rel_cypher_row ty) before s) = fold (rel_cypher_row ty) before s"
    using assms n rel_cypher_row_unresolved[of row "fold (rel_cypher_row ty) before s" ty] by simp
  then show ?thesis by (simp add: REL_CYPHER_def)
qed

lemma first_error_drop: "first_error (xs @ None # ys) = first_error (xs @ ys)"
  by (induction xs rule: first_error.induct) simp_all

lemma first_error_Some: "first_error (xs @ Some e # ys) \<noteq> None"
  by (induction xs rule: first_error.induct) simp_all

lemma flush_rels_drop:
  assumes u: "\<not> resolves (rel_source_id row) (nodes s) \<or> \<not> resolves (rel_target_id row) (nodes s)"
    and p: "pack (rel_row_dict row) = None"
  shows "flush_rels ty (before @ row # after) s = flush_rels ty (before @ after) s"
proof -
  have e: "pack (JList (map rel_row_dict (before @ row # after)))
      = pack (JList (map rel_row_dict (before @ after)))"
    using p first_error_drop[of "map pack (map rel_row_dict before)" "map pack (map rel_row_dict after)"]
    by simp
  have d: "REL_CYPHER ty (before @ row # after) s = REL_CYPHER ty (before @ after) s"
    by (rule REL_CYPHER_drop[OF u])
  show ?thesis
  proof (cases "before @ after = []")
    case True
    then have "REL_CYPHER ty [row] s = s" using d by (simp add: REL_CYPHER_def)
    then show ?thesis using True p by (simp add: flush_rels_def)
  next
    case False
    have ne: "before @ row # after \<noteq> []" by simp
    show ?thesis by (simp only: flush_rels_def e d ne False if_False)
  qed
qed

lemma flush_rels_raises:
  assumes "pack (rel_row_dict row) = Some e"
  shows "\<exists>e'. flush_rels ty (before @ row # after) s = Inl e'"
proof -
  have "pack (JList (map rel_row_dict (before @ row # after))) \<noteq> None"
    using assms first_error_Some[of "map pack (map rel_row_dict before)" e
        "map pack (map rel_row_dict after)"]
    by simp
  then show ?thesis by (auto simp: flush_rels_def)
qed

lemma flush_rels_written:
  assumes "flush_rels ty batch s = Inr (s', b)"
  shows "s' = REL_CYPHER ty batch s"
  using assms by (auto simp: flush_rels_def REL_CYPHER_def split: if_splits option.splits)

text \<open>
  C6, as stated, fails: the second row below is dangling (no node carries P9) and its
  modified timestamp is the decimal 1.5, which the driver cannot encode. The flush of
  the two rows raises and writes nothing, while the flush of the first row alone
  creates its edge: the dangling row aborts the batch and the edge of the other row is
  lost with it.
\<close>

theorem dangling_decimal_row_aborts_batch:
  "flush_rels DIRECTORSHIP
      [\<lparr> rel_id = JStr ''D1'', rel_schema = JStr ''Directorship'', rel_source_id = JStr ''P1'',
         rel_target_id = JStr ''C1'', rel_datasets = JList [], rel_modified_at = JNull \<rparr>,
       \<lparr> rel_id = JStr ''D2'', rel_schema = JStr ''Directorship'', rel_source_id = JStr ''P9'',
         rel_target_id = JStr ''C1'', rel_datasets = JList [], rel_modified_at = JDec (3 / 2) \<rparr>]
      \<lparr> nodes = [\<lparr> n_label = Person, n_ftm_id = JStr ''P1'', n_schema = JStr ''Person'',
                   n_name = JStr ''Jane'', n_datasets = JList [], n_modified_at = JNull \<rparr>,
                 \<lparr> n_label = Company, n_ftm_id = JStr ''C1'', n_schema = JStr ''Company'',
                   n_name = JStr ''Acme'', n_datasets = JList [], n_modified_at = JNull \<rparr>],
        rels = [] \<rparr>
     = Inl ValueError
   \<and> flush_rels DIRECTORSHIP
      [\<lparr> rel_id = JStr ''D1'', rel_schema = JStr ''Directorship'', rel_source_id = JStr ''P1'',
         rel_target_id = JStr ''C1'', rel_datasets = JList [], rel_modified_at = JNull \<rparr>]
      \<lparr> nodes = [\<lparr> n_label = Person, n_ftm_id = JStr ''P1'', n_schema = JStr ''Person'',
                   n_name = JStr ''Jane'', n_datasets = JList [], n_modified_at = JNull \<rparr>,
                 \<lparr> n_label = Company, n_ftm_id = JStr ''C1'', n_schema = JStr ''Company'',
                   n_name = JStr ''Acme'', n_datasets = JList [], n_modified_at = JNull \<rparr>],
        rels = [] \<rparr>
     = Inr (\<lparr> nodes = [\<lparr> n_label = Person, n_ftm_id = JStr ''P1'', n_schema = JStr ''Person'',
                   n_name = JStr ''Jane'', n_datasets = JList [], n_modified_at = JNull \<rparr>,
                 \<lparr> n_label = Company, n_ftm_id = JStr ''C1'', n_schema = JStr ''Company'',
                   n_name = JStr ''Acme'', n_datasets = JList [], n_modified_at = JNull \<rparr>],
             rels = [\<lparr> r_type = DIRECTORSHIP, r_src = 0, r_tgt = 1, r_ftm_id = JStr ''D1'',
                  r_schema = JStr ''Directorship'', r_datasets = JList [],
                  r_modified_at = JNull \<rparr>] \<rparr>, [])
   \<and> \<not> resolves (JStr ''P9'')
        [\<lparr> n_label = Person, n_ftm_id = JStr ''P1'', n_schema = JStr ''Person'',
           n_name = JStr ''Jane'', n_datasets = JList [], n_modified_at = JNull \<rparr>,
         \<lparr> n_label = Company, n_ftm_id = JStr ''C1'', n_schema = JStr ''Company'',
           n_name = JStr ''Acme'', n_datasets = JList [], n_modified_at = JNull \<rparr>]"
  by (simp add: flush_rels_def node_row_dict_def rel_row_dict_def REL_CYPHER_def rel_cypher_row_def
      rel_bindings_def endpoint_def optional_match_def prop_eq_def coalesce_def merge_set_def
      rel_assign_def rel_create_def rel_matches_def resolves_def upt_rec)

text \<open>
  C6, amended. A row whose source or target identifier resolves to no Person and no
  Company node, and whose values the driver can encode, changes nothing: the flush of
  a batch containing it has the outcome of the flush of the other rows of the batch
  (the same store, or the same exception when one of them cannot be encoded), and the
  flush of the row alone returns with the store as it was. A row that the driver
  cannot encode, dangling or not, makes the flush of its batch raise. Every
  relationship that a flush creates or changes joins two existing nodes that carry the
  identifiers of a row of the batch.
\<close>

theorem dangling_edge_dropped:
  "((\<not> resolves (rel_source_id row) (nodes s) \<or> \<not> resolves (rel_target_id row) (nodes s))
      \<and> pack (rel_row_dict row) = None \<longrightarrow>
      flush_rels ty (before @ row # after) s = flush_rels ty (before @ after) s
      \<and> flush_rels ty [row] s = Inr (s, []))
   \<and> (pack (rel_row_dict row) \<noteq> None \<longrightarrow>
      (\<exists>e. flush_rels ty (before @ row # after) s = Inl e))
   \<and> (flush_rels ty batch s = Inr (s', b) \<and> r \<in> set (rels s') \<and> r \<notin> set (rels s) \<longrightarrow>
      (\<exists>row' \<in> set batch. resolves (rel_source_id row') (nodes s)
          \<and> resolves (rel_target_id row') (nodes s) \<and> joins row' (nodes s) r))"
proof -
  have lab: "\<And>n :: node. n_label n = Person \<or> n_label n = Company"
  proof -
    fix n :: node show "n_label n = Person \<or> n_label n = Company" by (cases "n_label n") simp_all
  qed
  have res: "\<And>i v. i < length (nodes s) \<Longrightarrow> prop_eq (n_ftm_id (nodes s ! i)) v \<Longrightarrow> resolves v (nodes s)"
  proof -
    fix i v assume "i < length (nodes s)" and p: "prop_eq (n_ftm_id (nodes s ! i)) v"
    then have "nodes s ! i \<in> set (nodes s)" by simp
    then show "resolves v (nodes s)" unfolding resolves_def using p lab by blast
  qed
  have j: "\<And>row'. joins row' (nodes s) r \<Longrightarrow>
      resolves (rel_source_id row') (nodes s) \<and> resolves (rel_target_id row') (nodes s)"
    unfolding joins_def using res by blast
  have 1: "(\<not> resolves (rel_source_id row) (nodes s) \<or> \<not> resolves (rel_target_id row) (nodes s))
      \<and> pack (rel_row_dict row) = None \<longrightarrow>
      flush_rels ty (before @ row # after) s = flush_rels ty (before @ after) s
      \<and> flush_rels ty [row] s = Inr (s, [])"
  proof
    assume h: "(\<not> resolves (rel_source_id row) (nodes s) \<or> \<not> resolves (rel_target_id row) (nodes s))
      \<and> pack (rel_row_dict row) = None"
    then have u: "\<not> resolves (rel_source_id row) (nodes s) \<or> \<not> resolves (rel_target_id row) (nodes s)"
      and p: "pack (rel_row_dict row) = None" by simp_all
    have a: "flush_rels ty (before @ row # after) s = flush_rels ty (before @ after) s"
      by (rule flush_rels_drop[OF u p])
    have "flush_rels ty ([] @ row # []) s = flush_rels ty ([] @ []) s"
      by (rule flush_rels_drop[OF u p])
    then have b: "flush_rels ty [row] s = Inr (s, [])" by (simp add: flush_rels_def)
    from a b show "flush_rels ty (before @ row # after) s = flush_rels ty (before @ after) s
      \<and> flush_rels ty [row] s = Inr (s, [])" by simp
  qed
  have 2: "pack (rel_row_dict row) \<noteq> None \<longrightarrow>
      (\<exists>e. flush_rels ty (before @ row # after) s = Inl e)"
    using flush_rels_raises[of row _ ty before after s] by (cases "pack (rel_row_dict row)") simp_all
  have 3: "flush_rels ty batch s = Inr (s', b) \<and> r \<in> set (rels s') \<and> r \<notin> set (rels s) \<longrightarrow>
      (\<exists>row' \<in> set batch. resolves (rel_source_id row') (nodes s)
          \<and> resolves (rel_target_id row') (nodes s) \<and> joins row' (nodes s) r)"
  proof
    assume h: "flush_rels ty batch s = Inr (s', b) \<and> r \<in> set (rels s') \<and> r \<notin> set (rels s)"
    then have "s' = REL_CYPHER ty batch s" using flush_rels_written by blast
    then have "r \<in> set (rels (REL_CYPHER ty batch s))" using h by simp
    then show "\<exists>row' \<in> set batch. resolves (rel_source_id row') (nodes s)
          \<and> resolves (rel_target_id row') (nodes s) \<and> joins row' (nodes s) r"
      using REL_CYPHER_touched[of r ty batch s] j h by blast
  qed
  from 1 2 3 show ?thesis by blast
qed

theorem dangling_edge_dropped_witness:
  "flush_rels DIRECTORSHIP
      [\<lparr> rel_id = JStr ''D1'', rel_schema = JStr ''Directorship'', rel_source_id = JStr ''P1'',
         rel_target_id = JStr ''C1'', rel_datasets = JList [], rel_modified_at = JNull \<rparr>,
       \<lparr> rel_id = JStr ''D2'', rel_schema = JStr ''Directorship'', rel_source_id = JStr ''P9'',
         rel_target_id = JStr ''C1'', rel_datasets = JList [], rel_modified_at = JNull \<rparr>]
      \<lparr> nodes = [\<lparr> n_label = Person, n_ftm_id = JStr ''P1'', n_schema = JStr ''Person'',
                   n_name = JStr ''Jane'', n_datasets = JList [], n_modified_at = JNull \<rparr>,
                 \<lparr> n_label = Company, n_ftm_id = JStr ''C1'', n_schema = JStr ''Company'',
                   n_name = JStr ''Acme'', n_datasets = JList [], n_modified_at = JNull \<rparr>],
        rels = [] \<rparr>
   = Inr (\<lparr> nodes = [\<lparr> n_label = Person, n_ftm_id = JStr ''P1'', n_schema = JStr ''Person'',
                   n_name = JStr ''Jane'', n_datasets = JList [], n_modified_at = JNull \<rparr>,
                 \<lparr> n_label = Company, n_ftm_id = JStr ''C1'', n_schema = JStr ''Company'',
                   n_name = JStr ''Acme'', n_datasets = JList [], n_modified_at = JNull \<rparr>],
        rels = [\<lparr> r_type = DIRECTORSHIP, r_src = 0, r_tgt = 1, r_ftm_id = JStr ''D1'',
                  r_schema = JStr ''Directorship'', r_datasets = JList [],
                  r_modified_at = JNull \<rparr>] \<rparr>, [])
   \<and> (\<exists>e. flush_rels DIRECTORSHIP
      [\<lparr> rel_id = JStr ''D1'', rel_schema = JStr ''Directorship'', rel_source_id = JStr ''P1'',
         rel_target_id = JStr ''C1'', rel_datasets = JList [], rel_modified_at = JNull \<rparr>,
       \<lparr> rel_id = JStr ''D3'', rel_schema = JStr ''Directorship'', rel_source_id = JStr ''P1'',
         rel_target_id = JStr ''C1'', rel_datasets = JList [],
         rel_modified_at = JInt 9223372036854775808 \<rparr>]
      \<lparr> nodes = [\<lparr> n_label = Person, n_ftm_id = JStr ''P1'', n_schema = JStr ''Person'',
                   n_name = JStr ''Jane'', n_datasets = JList [], n_modified_at = JNull \<rparr>,
                 \<lparr> n_label = Company, n_ftm_id = JStr ''C1'', n_schema = JStr ''Company'',
                   n_name = JStr ''Acme'', n_datasets = JList [], n_modified_at = JNull \<rparr>],
        rels = [] \<rparr> = Inl e)
   \<and> resolves (JStr ''P1'')
        [\<lparr> n_label = Person, n_ftm_id = JStr ''P1'', n_schema = JStr ''Person'',
           n_name = JStr ''Jane'', n_datasets = JList [], n_modified_at = JNull \<rparr>,
         \<lparr> n_label = Company, n_ftm_id = JStr ''C1'', n_schema = JStr ''Company'',
           n_name = JStr ''Acme'', n_datasets = JList [], n_modified_at = JNull \<rparr>]"
proof -
  let ?d1 = "\<lparr> rel_id = JStr ''D1'', rel_schema = JStr ''Directorship'', rel_source_id = JStr ''P1'',
         rel_target_id = JStr ''C1'', rel_datasets = JList [], rel_modified_at = JNull \<rparr>"
  let ?d2 = "\<lparr> rel_id = JStr ''D2'', rel_schema = JStr ''Directorship'', rel_source_id = JStr ''P9'',
         rel_target_id = JStr ''C1'', rel_datasets = JList [], rel_modified_at = JNull \<rparr>"
  let ?d3 = "\<lparr> rel_id = JStr ''D3'', rel_schema = JStr ''Directorship'', rel_source_id = JStr ''P1'',
         rel_target_id = JStr ''C1'', rel_datasets = JList [],
         rel_modified_at = JInt 9223372036854775808 \<rparr>"
  let ?ns = "[\<lparr> n_label = Person, n_ftm_id = JStr ''P1'', n_schema = JStr ''Person'',
                   n_name = JStr ''Jane'', n_datasets = JList [], n_modified_at = JNull \<rparr>,
                 \<lparr> n_label = Company, n_ftm_id = JStr ''C1'', n_schema = JStr ''Company'',
                   n_name = JStr ''Acme'', n_datasets = JList [], n_modified_at = JNull \<rparr>]"
  let ?s = "\<lparr> nodes = ?ns, rels = [] \<rparr>"
  let ?e = "\<lparr> r_type = DIRECTORSHIP, r_src = 0, r_tgt = 1, r_ftm_id = JStr ''D1'',
                  r_schema = JStr ''Directorship'', r_datasets = JList [],
                  r_modified_at = JNull \<rparr>"
  have u: "\<not> resolves (rel_source_id ?d2) (nodes ?s)"
    by (simp add: resolves_def prop_eq_def)
  have p2: "pack (rel_row_dict ?d2) = None" by (simp add: rel_row_dict_def)
  have p3: "pack (rel_row_dict ?d3) \<noteq> None" by (simp add: rel_row_dict_def)
  have one: "flush_rels DIRECTORSHIP [?d1] ?s = Inr (\<lparr> nodes = ?ns, rels = [?e] \<rparr>, [])"
    by (simp add: flush_rels_def rel_row_dict_def REL_CYPHER_def rel_cypher_row_def rel_bindings_def
        endpoint_def optional_match_def prop_eq_def coalesce_def merge_set_def rel_assign_def
        rel_create_def upt_rec)
  have "flush_rels DIRECTORSHIP ([?d1] @ ?d2 # []) ?s = flush_rels DIRECTORSHIP ([?d1] @ []) ?s"
    using dangling_edge_dropped[where row = ?d2 and s = ?s and ty = DIRECTORSHIP
        and before = "[?d1]" and after = "[]"] u p2 by blast
  moreover have "\<exists>e. flush_rels DIRECTORSHIP ([?d1] @ ?d3 # []) ?s = Inl e"
    using dangling_edge_dropped[where row = ?d3 and s = ?s and ty = DIRECTORSHIP
        and before = "[?d1]" and after = "[]"] p3 by blast
  moreover have "resolves (JStr ''P1'') ?ns"
    using dangling_edge_dropped[where s = ?s and ty = DIRECTORSHIP and r = ?e
        and batch = "[?d1]" and s' = "\<lparr> nodes = ?ns, rels = [?e] \<rparr>" and b = "[]"] one
    by (simp add: resolves_def prop_eq_def)
  ultimately show ?thesis using one by simp
qed

section \<open>Subgraph assembly\<close>

lemma graph_step_split:
  "fold graph_step rows (ns, ls) =
     (fold (\<lambda>(i, nm, ty). add_node i nm ty) (sightings rows) ns,
      fold (\<lambda>(s, t, r). add_link s t r) (link_candidates rows) ls)"
proof (induction rows arbitrary: ns ls)
  case Nil
  then show ?case by (simp add: sightings_def link_candidates_def)
next
  case (Cons row rows)
  have "graph_step row (ns, ls) =
      (add_node (other_company_id row) (other_company_name row) ''company''
         (add_node (person_id row) (person_name row) ''person''
            (add_node (root_id row) (root_name row) ''company'' ns)),
       add_link (person_id row) (other_company_id row) (role_to_other row)
         (add_link (person_id row) (root_id row) (role_to_root row) ls))"
    by (simp add: graph_step_def Let_def)
  then show ?case using Cons.IH by (simp add: sightings_def link_candidates_def)
qed

lemma get_company_graph_split:
  "get_company_graph (Inr rows) =
     Inr (map snd (fold (\<lambda>(i, nm, ty). add_node i nm ty) (sightings rows) []),
          snd (fold (\<lambda>(s, t, r). add_link s t r) (link_candidates rows) ({}, [])))"
  by (simp add: get_company_graph_def graph_step_split split: prod.splits)

lemma remdups_skip: "x \<in> set ys \<Longrightarrow> remdups (xs @ x # ys) = remdups (xs @ ys)"
  by (induction xs) auto

lemma link_key_eq:
  "(link_key l = (a, b, c)) = (l = \<lparr> l_source = a, l_target = b, l_role = c \<rparr>)"
  by (cases l) (auto simp: link_key_def)

lemma link_key_eq2:
  "((a, b, c) = link_key l) = (l = \<lparr> l_source = a, l_target = b, l_role = c \<rparr>)"
  by (cases l) (auto simp: link_key_def)

lemma add_link_step:
  assumes "fst st = link_key ` set (snd st)"
  shows "add_link s t r st =
     (case link_of (s, t, r) of
        [] \<Rightarrow> st
      | l # _ \<Rightarrow> if l \<in> set (snd st) then st else (insert (link_key l) (fst st), snd st @ [l]))"
proof -
  have k: "\<And>a b. ((a, b, or_none r) \<in> link_key ` set (snd st))
      = (\<lparr> l_source = a, l_target = b, l_role = or_none r \<rparr> \<in> set (snd st))"
    by (auto simp: image_iff link_key_eq2)
  show ?thesis
    using assms k by (cases s; cases t) (auto simp: add_link_def link_of_def link_key_def)
qed

lemma fold_add_link:
  assumes "fst st = link_key ` set (snd st)" and "distinct (snd st)"
  shows "snd (fold (\<lambda>(s, t, r). add_link s t r) cs st)
       = rev (remdups (rev (snd st @ concat (map link_of cs))))"
  using assms
proof (induction cs arbitrary: st)
  case Nil
  then show ?case by (simp add: distinct_remdups_id)
next
  case (Cons c cs)
  obtain s t r where c: "c = (s, t, r)" by (cases c)
  have lo: "link_of (s, t, r) = [] \<or> (\<exists>l. link_of (s, t, r) = [l])"
    by (auto simp: link_of_def split: option.splits)
  let ?st' = "add_link s t r st"
  show ?case
  proof (cases "link_of (s, t, r)")
    case Nil
    then have "?st' = st" using add_link_step[OF Cons.prems(1)] by simp
    then show ?thesis using Cons.IH[OF Cons.prems] c Nil by simp
  next
    case (Cons l rest)
    then have l: "link_of (s, t, r) = [l]" using lo by auto
    show ?thesis
    proof (cases "l \<in> set (snd st)")
      case True
      then have "?st' = st" using add_link_step[OF Cons.prems(1), of s t r] l by simp
      moreover have "remdups (rev (concat (map link_of cs)) @ l # rev (snd st))
          = remdups (rev (concat (map link_of cs)) @ rev (snd st))"
        by (rule remdups_skip) (simp add: True)
      ultimately show ?thesis using \<open>\<And>st. \<lbrakk>fst st = link_key ` set (snd st); distinct (snd st)\<rbrakk> \<Longrightarrow>
          snd (fold (\<lambda>(s, t, r). add_link s t r) cs st) = rev (remdups (rev (snd st @ concat (map link_of cs))))\<close>[of st]
          \<open>fst st = link_key ` set (snd st)\<close> \<open>distinct (snd st)\<close> c l by simp
    next
      case False
      then have st': "?st' = (insert (link_key l) (fst st), snd st @ [l])"
        using add_link_step[OF \<open>fst st = link_key ` set (snd st)\<close>, of s t r] l by simp
      have "fst ?st' = link_key ` set (snd ?st')" "distinct (snd ?st')"
        using st' \<open>fst st = link_key ` set (snd st)\<close> \<open>distinct (snd st)\<close> False by auto
      then have "snd (fold (\<lambda>(s, t, r). add_link s t r) cs ?st')
          = rev (remdups (rev (snd ?st' @ concat (map link_of cs))))"
        by (rule \<open>\<And>st. \<lbrakk>fst st = link_key ` set (snd st); distinct (snd st)\<rbrakk> \<Longrightarrow>
          snd (fold (\<lambda>(s, t, r). add_link s t r) cs st) = rev (remdups (rev (snd st @ concat (map link_of cs))))\<close>)
      then show ?thesis using st' c l by simp
    qed
  qed
qed

text \<open>
  C2. The assembler returns a list of links in which no (source, target, role) triple
  occurs twice, the role being normalised by \<open>role or None\<close>. The links are exactly
  those of the candidates with a non-empty source and target, each at its first
  occurrence: the same pair with two different roles gives two links, and a candidate
  without source or target gives none.
\<close>

theorem links_deduplicated:
  "\<exists>ns links. get_company_graph (Inr rows) = Inr (ns, links)
     \<and> distinct links
     \<and> set links = set (concat (map link_of (link_candidates rows)))
     \<and> links = rev (remdups (rev (concat (map link_of (link_candidates rows)))))"
proof -
  have "snd (fold (\<lambda>(s, t, r). add_link s t r) (link_candidates rows) ({}, []))
      = rev (remdups (rev (concat (map link_of (link_candidates rows)))))"
    using fold_add_link[of "({}, [])" "link_candidates rows"] by simp
  moreover obtain S L where sl: "fold (\<lambda>(s, t, r). add_link s t r) (link_candidates rows) ({}, []) = (S, L)"
    by (cases "fold (\<lambda>(s, t, r). add_link s t r) (link_candidates rows) ({}, [])")
  ultimately have L: "L = rev (remdups (rev (concat (map link_of (link_candidates rows)))))" by simp
  have "get_company_graph (Inr rows)
      = Inr (map snd (fold (\<lambda>(i, nm, ty). add_node i nm ty) (sightings rows) []), L)"
    by (simp add: get_company_graph_def graph_step_split sl)
  moreover have "distinct L" "set L = set (concat (map link_of (link_candidates rows)))"
    using L by simp_all
  ultimately show ?thesis using L by blast
qed


theorem links_deduplicated_witness:
  "get_company_graph (Inr
     [\<lparr> root_id = Some ''C1'', root_name = Some ''Acme'', person_id = Some ''P1'',
        person_name = Some ''Jane'', other_company_id = Some ''C2'', other_company_name = None,
        role_to_root = Some ''director'', role_to_other = None \<rparr>,
      \<lparr> root_id = Some ''C1'', root_name = Some ''Acme'', person_id = Some ''P1'',
        person_name = Some ''Jane'', other_company_id = Some ''C2'', other_company_name = None,
        role_to_root = Some ''secretary'', role_to_other = Some [] \<rparr>,
      \<lparr> root_id = Some ''C1'', root_name = Some ''Acme'', person_id = None,
        person_name = None, other_company_id = None, other_company_name = None,
        role_to_root = Some ''director'', role_to_other = None \<rparr>])
   = Inr ([\<lparr> g_id = ''C1'', g_name = Some ''Acme'', g_type = ''company'' \<rparr>,
           \<lparr> g_id = ''P1'', g_name = Some ''Jane'', g_type = ''person'' \<rparr>,
           \<lparr> g_id = ''C2'', g_name = None, g_type = ''company'' \<rparr>],
          [\<lparr> l_source = ''P1'', l_target = ''C1'', l_role = Some ''director'' \<rparr>,
           \<lparr> l_source = ''P1'', l_target = ''C2'', l_role = None \<rparr>,
           \<lparr> l_source = ''P1'', l_target = ''C1'', l_role = Some ''secretary'' \<rparr>])"
proof -
  let ?rows = "[\<lparr> root_id = Some ''C1'', root_name = Some ''Acme'', person_id = Some ''P1'',
        person_name = Some ''Jane'', other_company_id = Some ''C2'', other_company_name = None,
        role_to_root = Some ''director'', role_to_other = None \<rparr>,
      \<lparr> root_id = Some ''C1'', root_name = Some ''Acme'', person_id = Some ''P1'',
        person_name = Some ''Jane'', other_company_id = Some ''C2'', other_company_name = None,
        role_to_root = Some ''secretary'', role_to_other = Some [] \<rparr>,
      \<lparr> root_id = Some ''C1'', root_name = Some ''Acme'', person_id = None,
        person_name = None, other_company_id = None, other_company_name = None,
        role_to_root = Some ''director'', role_to_other = None \<rparr>]"
  obtain ns links where g: "get_company_graph (Inr ?rows) = Inr (ns, links)"
    and l: "links = rev (remdups (rev (concat (map link_of (link_candidates ?rows)))))"
    using links_deduplicated[of ?rows] by blast
  have "links = [\<lparr> l_source = ''P1'', l_target = ''C1'', l_role = Some ''director'' \<rparr>,
           \<lparr> l_source = ''P1'', l_target = ''C2'', l_role = None \<rparr>,
           \<lparr> l_source = ''P1'', l_target = ''C1'', l_role = Some ''secretary'' \<rparr>]"
    unfolding l by (simp add: link_candidates_def link_of_def or_none_def str_truthy_def)
  moreover have "ns = [\<lparr> g_id = ''C1'', g_name = Some ''Acme'', g_type = ''company'' \<rparr>,
           \<lparr> g_id = ''P1'', g_name = Some ''Jane'', g_type = ''person'' \<rparr>,
           \<lparr> g_id = ''C2'', g_name = None, g_type = ''company'' \<rparr>]"
    using g unfolding get_company_graph_split
    by (simp add: sightings_def add_node_def str_truthy_def)
  ultimately show ?thesis using g by simp
qed

lemma settled_name_Cons:
  "settled_name nm (x # later)
     = settled_name (if \<not> str_truthy nm \<and> str_truthy x then x else nm) later"
  by (simp add: settled_name_def)

lemma settled_name_Nil: "settled_name nm [] = nm"
  by (simp add: settled_name_def)

lemma map_of_rename:
  "map_of (map (\<lambda>(k, v). if k = i then (k, f v) else (k, v)) acc) j
     = (if j = i then map_option f (map_of acc j) else map_of acc j)"
  by (induction acc) auto

lemma map_fst_rename:
  "map (fst \<circ> (\<lambda>(k, v). if k = i then (k, f v) else (k, v))) acc = map fst acc"
  by (induction acc) auto

lemma add_node_map_of:
  "map_of (add_node j nm ty acc) i =
     (if j = Some i \<and> i \<noteq> [] then
        (case map_of acc i of
           Some n \<Rightarrow> Some (n\<lparr> g_name := (if \<not> str_truthy (g_name n) \<and> str_truthy nm then nm
                                            else g_name n) \<rparr>)
         | None \<Rightarrow> Some \<lparr> g_id = i, g_name = nm, g_type = ty \<rparr>)
      else map_of acc i)"
  by (auto simp: add_node_def map_of_rename map_add_def split: option.splits)

lemma add_node_inv:
  assumes "nodes_inv acc"
  shows "nodes_inv (add_node j nm ty acc)"
proof (cases j)
  case None
  then show ?thesis using assms by (simp add: add_node_def)
next
  case (Some i)
  show ?thesis
  proof (cases "i = []")
    case True
    then show ?thesis using assms Some by (simp add: add_node_def)
  next
    case False
    show ?thesis
    proof (cases "map_of acc i")
      case None
      then have "i \<notin> fst ` set acc" by (simp add: map_of_eq_None_iff)
      then show ?thesis using assms Some False None
        by (auto simp: add_node_def nodes_inv_def)
    next
      case (Some n)
      have "nodes_inv (map (\<lambda>(k, v). if k = i then (k, v\<lparr> g_name := nm \<rparr>) else (k, v)) acc)"
        using assms by (fastforce simp: nodes_inv_def map_fst_rename split: if_splits)
      then show ?thesis using assms \<open>j = Some i\<close> False Some by (simp add: add_node_def)
    qed
  qed
qed

lemma fold_add_node_inv:
  "nodes_inv acc \<Longrightarrow> nodes_inv (fold (\<lambda>(i, nm, ty). add_node i nm ty) ss acc)"
  by (induction ss arbitrary: acc) (auto simp: add_node_inv)

lemma fold_add_node_map_of:
  assumes "i \<noteq> []"
  shows "map_of (fold (\<lambda>(j, nm, ty). add_node j nm ty) ss acc) i =
     (case map_of acc i of
        Some n \<Rightarrow>
          Some (n\<lparr> g_name := settled_name (g_name n)
                      (map fst (map snd (filter (\<lambda>s. fst s = Some i) ss))) \<rparr>)
      | None \<Rightarrow>
          (case map snd (filter (\<lambda>s. fst s = Some i) ss) of
             [] \<Rightarrow> None
           | (nm, ty) # rest \<Rightarrow>
               Some \<lparr> g_id = i, g_name = settled_name nm (map fst rest), g_type = ty \<rparr>))"
proof (induction ss arbitrary: acc)
  case Nil
  then show ?case by (simp add: settled_name_Nil split: option.splits)
next
  case (Cons s ss)
  obtain j nm ty where s: "s = (j, nm, ty)" by (cases s)
  let ?P = "\<lambda>s :: string option \<times> string option \<times> string. fst s = Some i"
  have step: "fold (\<lambda>(j, nm, ty). add_node j nm ty) (s # ss) acc
      = fold (\<lambda>(j, nm, ty). add_node j nm ty) ss (add_node j nm ty acc)"
    by (simp add: s)
  note IH = Cons.IH[of "add_node j nm ty acc"]
  show ?case
  proof (cases "j = Some i")
    case False
    then have filt: "filter ?P (s # ss) = filter ?P ss" by (simp add: s)
    have same: "map_of (add_node j nm ty acc) i = map_of acc i"
      using False by (simp add: add_node_map_of)
    show ?thesis unfolding step filt using IH unfolding same .
  next
    case True
    then have filt: "map snd (filter ?P (s # ss)) = (nm, ty) # map snd (filter ?P ss)"
      by (simp add: s)
    show ?thesis
    proof (cases "map_of acc i")
      case None
      then have new: "map_of (add_node j nm ty acc) i = Some \<lparr> g_id = i, g_name = nm, g_type = ty \<rparr>"
        using True assms by (simp add: add_node_map_of)
      show ?thesis unfolding step filt using IH unfolding new None by simp
    next
      case (Some n)
      then have old: "map_of (add_node j nm ty acc) i
          = Some (n\<lparr> g_name := (if \<not> str_truthy (g_name n) \<and> str_truthy nm then nm
                                            else g_name n) \<rparr>)"
        using True assms by (simp add: add_node_map_of)
      show ?thesis unfolding step filt using IH unfolding old Some
        by (simp add: settled_name_Cons)
    qed
  qed
qed

lemma filter_by_key:
  "nodes_inv acc \<Longrightarrow>
   filter (\<lambda>n. g_id n = i) (map snd acc) = (case map_of acc i of None \<Rightarrow> [] | Some n \<Rightarrow> [n])"
proof (induction acc)
  case Nil
  then show ?case by simp
next
  case (Cons kv acc)
  obtain k v where kv: "kv = (k, v)" by (cases kv)
  have inv: "nodes_inv acc" and gk: "g_id v = k" and notin: "k \<notin> fst ` set acc"
    using Cons.prems kv by (auto simp: nodes_inv_def)
  show ?case
  proof (cases "k = i")
    case True
    then have "map_of acc i = None" using notin by (simp add: map_of_eq_None_iff)
    then show ?thesis using Cons.IH[OF inv] kv gk True by simp
  next
    case False
    then show ?thesis using Cons.IH[OF inv] kv gk by simp
  qed
qed

text \<open>
  C3. For every identifier the assembled view holds at most one node; it exists when the
  identifier was sighted, has the type of the first sighting, and its name is the first
  non-empty name with which the identifier was sighted (the name of the first sighting
  when no sighting has a non-empty name). So a missing name is filled by a later row
  and a name, once there, is never replaced.
\<close>

theorem first_name_wins:
  "i \<noteq> [] \<longrightarrow>
   (\<exists>ns links. get_company_graph (Inr rows) = Inr (ns, links)
      \<and> filter (\<lambda>n. g_id n = i) ns =
          (case seen i rows of
             [] \<Rightarrow> []
           | (nm, ty) # later \<Rightarrow>
               [\<lparr> g_id = i, g_name = settled_name nm (map fst later), g_type = ty \<rparr>]))"
proof
  assume i: "i \<noteq> []"
  let ?acc = "fold (\<lambda>(j, nm, ty). add_node j nm ty) (sightings rows) []"
  obtain S L where sl: "fold (\<lambda>(s, t, r). add_link s t r) (link_candidates rows) ({}, []) = (S, L)"
    by (cases "fold (\<lambda>(s, t, r). add_link s t r) (link_candidates rows) ({}, [])")
  have g: "get_company_graph (Inr rows) = Inr (map snd ?acc, L)"
    by (simp add: get_company_graph_def graph_step_split sl)
  have inv: "nodes_inv ?acc" by (rule fold_add_node_inv) (simp add: nodes_inv_def)
  have "filter (\<lambda>n. g_id n = i) (map snd ?acc) = (case map_of ?acc i of None \<Rightarrow> [] | Some n \<Rightarrow> [n])"
    by (rule filter_by_key[OF inv])
  also have "\<dots> = (case seen i rows of
             [] \<Rightarrow> []
           | (nm, ty) # later \<Rightarrow>
               [\<lparr> g_id = i, g_name = settled_name nm (map fst later), g_type = ty \<rparr>])"
    using fold_add_node_map_of[OF i, of "sightings rows" "[]"]
    by (simp add: seen_def split: list.splits)
  finally show "\<exists>ns links. get_company_graph (Inr rows) = Inr (ns, links)
      \<and> filter (\<lambda>n. g_id n = i) ns =
          (case seen i rows of
             [] \<Rightarrow> []
           | (nm, ty) # later \<Rightarrow>
               [\<lparr> g_id = i, g_name = settled_name nm (map fst later), g_type = ty \<rparr>])"
    using g by blast
qed


theorem first_name_wins_witness:
  "get_company_graph (Inr
     [\<lparr> root_id = Some ''C1'', root_name = Some ''Acme'', person_id = Some ''P1'',
        person_name = None, other_company_id = None, other_company_name = None,
        role_to_root = None, role_to_other = None \<rparr>,
      \<lparr> root_id = Some ''C1'', root_name = None, person_id = Some ''P1'',
        person_name = Some ''Jane'', other_company_id = None, other_company_name = None,
        role_to_root = None, role_to_other = None \<rparr>,
      \<lparr> root_id = Some ''C1'', root_name = Some ''Acme Ltd'', person_id = Some ''P1'',
        person_name = Some ''Janet'', other_company_id = None, other_company_name = None,
        role_to_root = None, role_to_other = None \<rparr>])
   = Inr ([\<lparr> g_id = ''C1'', g_name = Some ''Acme'', g_type = ''company'' \<rparr>,
           \<lparr> g_id = ''P1'', g_name = Some ''Jane'', g_type = ''person'' \<rparr>],
          [\<lparr> l_source = ''P1'', l_target = ''C1'', l_role = None \<rparr>])"
proof -
  let ?rows = "[\<lparr> root_id = Some ''C1'', root_name = Some ''Acme'', person_id = Some ''P1'',
        person_name = None, other_company_id = None, other_company_name = None,
        role_to_root = None, role_to_other = None \<rparr>,
      \<lparr> root_id = Some ''C1'', root_name = None, person_id = Some ''P1'',
        person_name = Some ''Jane'', other_company_id = None, other_company_name = None,
        role_to_root = None, role_to_other = None \<rparr>,
      \<lparr> root_id = Some ''C1'', root_name = Some ''Acme Ltd'', person_id = Some ''P1'',
        person_name = Some ''Janet'', other_company_id = None, other_company_name = None,
        role_to_root = None, role_to_other = None \<rparr>]"
  have seenP: "seen ''P1'' ?rows = [(None, ''person''), (Some ''Jane'', ''person''), (Some ''Janet'', ''person'')]"
    by (simp add: seen_def sightings_def)
  have seenC: "seen ''C1'' ?rows = [(Some ''Acme'', ''company''), (None, ''company''), (Some ''Acme Ltd'', ''company'')]"
    by (simp add: seen_def sightings_def)
  obtain ns links where g: "get_company_graph (Inr ?rows) = Inr (ns, links)"
    and p: "filter (\<lambda>n. g_id n = ''P1'') ns = [\<lparr> g_id = ''P1'', g_name = Some ''Jane'', g_type = ''person'' \<rparr>]"
    using first_name_wins[of "''P1''" ?rows] unfolding seenP
    by (auto simp: settled_name_def str_truthy_def)
  obtain ns' links' where g': "get_company_graph (Inr ?rows) = Inr (ns', links')"
    and c: "filter (\<lambda>n. g_id n = ''C1'') ns' = [\<lparr> g_id = ''C1'', g_name = Some ''Acme'', g_type = ''company'' \<rparr>]"
    using first_name_wins[of "''C1''" ?rows] unfolding seenC
    by (auto simp: settled_name_def str_truthy_def)
  have "get_company_graph (Inr ?rows)
      = Inr ([\<lparr> g_id = ''C1'', g_name = Some ''Acme'', g_type = ''company'' \<rparr>,
           \<lparr> g_id = ''P1'', g_name = Some ''Jane'', g_type = ''person'' \<rparr>],
          [\<lparr> l_source = ''P1'', l_target = ''C1'', l_role = None \<rparr>])"
    unfolding get_company_graph_split
    by (simp add: sightings_def add_node_def str_truthy_def link_candidates_def add_link_def
        or_none_def)
  then show ?thesis .
qed

section \<open>The two passes as sequences of upserts\<close>

lemma of_kind_simps:
  "of_kind k [] = []"
  "of_kind k (ops @ ops') = of_kind k ops @ of_kind k ops'"
  "of_kind k (map (Pair k) rows) = rows"
  "k' \<noteq> k \<Longrightarrow> of_kind k (map (Pair k') rows) = []"
  "of_kind k ((k, r) # ops) = r # of_kind k ops"
  "k' \<noteq> k \<Longrightarrow> of_kind k ((k', r) # ops) = of_kind k ops"
  by (simp_all add: of_kind_def filter_map comp_def)

lemma node_ops_append: "node_ops (ops @ ops') s = node_ops ops' (node_ops ops s)"
  by (simp add: node_ops_def)

lemma node_ops_Nil: "node_ops [] s = s"
  by (simp add: node_ops_def)

lemma flush_nodes_ops:
  "flush_nodes_accepted l batch s = (node_ops (map (Pair l) batch) s, [])"
  by (simp add: flush_nodes_accepted_def NODE_CYPHER_def node_ops_def fold_map comp_def)

lemma node_rows_Cons:
  "node_rows (e # es) =
     (case import_nodes_row e of Inr (Some lr) \<Rightarrow> [lr] | _ \<Rightarrow> []) @ node_rows es"
  by (simp add: node_rows_def)

lemma import_nodes_loop_step:
  assumes "import_nodes_row e = Inr x"
  shows "\<exists>pre cb2 pb2 c2 p2.
      (\<forall>s es. import_nodes_loop_accepted bs (e # es) stop s cb pb c p
            = import_nodes_loop_accepted bs es stop (node_ops pre s) cb2 pb2 c2 p2)
      \<and> of_kind Company pre @ cb2 = cb @ of_kind Company (node_rows [e])
      \<and> of_kind Person pre @ pb2 = pb @ of_kind Person (node_rows [e])
      \<and> c2 = c + length (of_kind Company (node_rows [e]))
      \<and> p2 = p + length (of_kind Person (node_rows [e]))"
proof (cases x)
  case None
  have "(\<forall>s es. import_nodes_loop_accepted bs (e # es) stop s cb pb c p
            = import_nodes_loop_accepted bs es stop (node_ops [] s) cb pb c p)
      \<and> of_kind Company [] @ cb = cb @ of_kind Company (node_rows [e])
      \<and> of_kind Person [] @ pb = pb @ of_kind Person (node_rows [e])
      \<and> c = c + length (of_kind Company (node_rows [e]))
      \<and> p = p + length (of_kind Person (node_rows [e]))"
    using assms None by (simp add: node_rows_def of_kind_simps node_ops_Nil)
  then show ?thesis by blast
next
  case (Some lr)
  obtain l row where lr: "lr = (l, row)" by (cases lr)
  have nr: "node_rows [e] = [(l, row)]" using assms Some lr by (simp add: node_rows_def)
  show ?thesis
  proof (cases l)
    case Company
    show ?thesis
    proof (cases "bs \<le> int (length (cb @ [row]))")
      case True
      have "(\<forall>s es. import_nodes_loop_accepted bs (e # es) stop s cb pb c p
            = import_nodes_loop_accepted bs es stop (node_ops (map (Pair Company) (cb @ [row])) s)
                [] pb (c + 1) p)
        \<and> of_kind Company (map (Pair Company) (cb @ [row])) @ [] = cb @ of_kind Company (node_rows [e])
        \<and> of_kind Person (map (Pair Company) (cb @ [row])) @ pb = pb @ of_kind Person (node_rows [e])
        \<and> c + 1 = c + length (of_kind Company (node_rows [e]))
        \<and> p = p + length (of_kind Person (node_rows [e]))"
        using assms Some lr Company True by (simp add: nr of_kind_simps flush_nodes_ops)
      then show ?thesis by blast
    next
      case False
      have "(\<forall>s es. import_nodes_loop_accepted bs (e # es) stop s cb pb c p
            = import_nodes_loop_accepted bs es stop (node_ops [] s) (cb @ [row]) pb (c + 1) p)
        \<and> of_kind Company [] @ (cb @ [row]) = cb @ of_kind Company (node_rows [e])
        \<and> of_kind Person [] @ pb = pb @ of_kind Person (node_rows [e])
        \<and> c + 1 = c + length (of_kind Company (node_rows [e]))
        \<and> p = p + length (of_kind Person (node_rows [e]))"
        using assms Some lr Company False by (simp add: nr of_kind_simps node_ops_Nil)
      then show ?thesis by blast
    qed
  next
    case Person
    show ?thesis
    proof (cases "bs \<le> int (length (pb @ [row]))")
      case True
      have "(\<forall>s es. import_nodes_loop_accepted bs (e # es) stop s cb pb c p
            = import_nodes_loop_accepted bs es stop (node_ops (map (Pair Person) (pb @ [row])) s)
                cb [] c (p + 1))
        \<and> of_kind Company (map (Pair Person) (pb @ [row])) @ cb = cb @ of_kind Company (node_rows [e])
        \<and> of_kind Person (map (Pair Person) (pb @ [row])) @ [] = pb @ of_kind Person (node_rows [e])
        \<and> c = c + length (of_kind Company (node_rows [e]))
        \<and> p + 1 = p + length (of_kind Person (node_rows [e]))"
        using assms Some lr Person True by (simp add: nr of_kind_simps flush_nodes_ops)
      then show ?thesis by blast
    next
      case False
      have "(\<forall>s es. import_nodes_loop_accepted bs (e # es) stop s cb pb c p
            = import_nodes_loop_accepted bs es stop (node_ops [] s) cb (pb @ [row]) c (p + 1))
        \<and> of_kind Company [] @ cb = cb @ of_kind Company (node_rows [e])
        \<and> of_kind Person [] @ (pb @ [row]) = pb @ of_kind Person (node_rows [e])
        \<and> c = c + length (of_kind Company (node_rows [e]))
        \<and> p + 1 = p + length (of_kind Person (node_rows [e]))"
        using assms Some lr Person False by (simp add: nr of_kind_simps node_ops_Nil)
      then show ?thesis by blast
    qed
  qed
qed

lemma import_nodes_loop_Inl:
  "import_nodes_row e = Inl err \<Longrightarrow> import_nodes_loop_accepted bs (e # es) stop s cb pb c p = Inl err"
  by simp

lemma import_nodes_loop_run:
  assumes "import_nodes_loop_accepted bs es stop s cb pb c p = Inr (s', cb', pb', c', p')"
  shows "\<exists>ops.
      (\<forall>t. import_nodes_loop_accepted bs es stop t cb pb c p = Inr (node_ops ops t, cb', pb', c', p'))
      \<and> of_kind Company ops @ cb' = cb @ of_kind Company (node_rows es)
      \<and> of_kind Person ops @ pb' = pb @ of_kind Person (node_rows es)
      \<and> c' = c + length (of_kind Company (node_rows es))
      \<and> p' = p + length (of_kind Person (node_rows es))"
  using assms
proof (induction es arbitrary: s cb pb c p)
  case Nil
  then have "stop = None" "cb' = cb" "pb' = pb" "c' = c" "p' = p"
    by (auto split: option.splits)
  then have "(\<forall>t. import_nodes_loop_accepted bs [] stop t cb pb c p = Inr (node_ops [] t, cb', pb', c', p'))
      \<and> of_kind Company [] @ cb' = cb @ of_kind Company (node_rows [])
      \<and> of_kind Person [] @ pb' = pb @ of_kind Person (node_rows [])
      \<and> c' = c + length (of_kind Company (node_rows []))
      \<and> p' = p + length (of_kind Person (node_rows []))"
    by (simp add: node_ops_Nil node_rows_def of_kind_simps)
  then show ?case by blast
next
  case (Cons e es)
  obtain x where x: "import_nodes_row e = Inr x"
    using Cons.prems by (cases "import_nodes_row e") simp_all
  obtain pre cb2 pb2 c2 p2 where
    step: "\<And>t es. import_nodes_loop_accepted bs (e # es) stop t cb pb c p
            = import_nodes_loop_accepted bs es stop (node_ops pre t) cb2 pb2 c2 p2"
    and k1: "of_kind Company pre @ cb2 = cb @ of_kind Company (node_rows [e])"
    and k2: "of_kind Person pre @ pb2 = pb @ of_kind Person (node_rows [e])"
    and k3: "c2 = c + length (of_kind Company (node_rows [e]))"
    and k4: "p2 = p + length (of_kind Person (node_rows [e]))"
    using import_nodes_loop_step[OF x, of bs stop cb pb c p] by blast
  have "import_nodes_loop_accepted bs es stop (node_ops pre s) cb2 pb2 c2 p2 = Inr (s', cb', pb', c', p')"
    using Cons.prems step by simp
  from Cons.IH[OF this] obtain ops where
    run: "\<And>t. import_nodes_loop_accepted bs es stop t cb2 pb2 c2 p2 = Inr (node_ops ops t, cb', pb', c', p')"
    and j1: "of_kind Company ops @ cb' = cb2 @ of_kind Company (node_rows es)"
    and j2: "of_kind Person ops @ pb' = pb2 @ of_kind Person (node_rows es)"
    and j3: "c' = c2 + length (of_kind Company (node_rows es))"
    and j4: "p' = p2 + length (of_kind Person (node_rows es))"
    by blast
  have nr: "node_rows (e # es) = node_rows [e] @ node_rows es" by (simp add: node_rows_def)
  have "(\<forall>t. import_nodes_loop_accepted bs (e # es) stop t cb pb c p
          = Inr (node_ops (pre @ ops) t, cb', pb', c', p'))
      \<and> of_kind Company (pre @ ops) @ cb' = cb @ of_kind Company (node_rows (e # es))
      \<and> of_kind Person (pre @ ops) @ pb' = pb @ of_kind Person (node_rows (e # es))
      \<and> c' = c + length (of_kind Company (node_rows (e # es)))
      \<and> p' = p + length (of_kind Person (node_rows (e # es)))"
    using step run k1 k2 k3 k4 j1 j2 j3 j4 unfolding nr
    by (simp add: node_ops_append of_kind_simps)
  then show ?case by blast
qed


lemma import_nodes_run:
  assumes "import_nodes_accepted (es, stop) bs s = Inr (s', c, p)"
  shows "\<exists>ops.
      (\<forall>t. import_nodes_accepted (es, stop) bs t = Inr (node_ops ops t, c, p))
      \<and> of_kind Company ops = of_kind Company (node_rows es)
      \<and> of_kind Person ops = of_kind Person (node_rows es)
      \<and> c = length (of_kind Company (node_rows es))
      \<and> p = length (of_kind Person (node_rows es))"
proof -
  obtain s1 cb pb c1 p1 where
    loop: "import_nodes_loop_accepted bs es stop s [] [] 0 0 = Inr (s1, cb, pb, c1, p1)"
    using assms by (auto simp: import_nodes_accepted_def split: sum.splits)
  then have cp: "c1 = c" "p1 = p"
    using assms by (auto simp: import_nodes_accepted_def flush_nodes_ops)
  from import_nodes_loop_run[OF loop] obtain ops where
    run: "\<And>t. import_nodes_loop_accepted bs es stop t [] [] 0 0 = Inr (node_ops ops t, cb, pb, c1, p1)"
    and j1: "of_kind Company ops @ cb = [] @ of_kind Company (node_rows es)"
    and j2: "of_kind Person ops @ pb = [] @ of_kind Person (node_rows es)"
    and j3: "c1 = 0 + length (of_kind Company (node_rows es))"
    and j4: "p1 = 0 + length (of_kind Person (node_rows es))"
    by blast
  let ?ops = "ops @ map (Pair Company) cb @ map (Pair Person) pb"
  have "(\<forall>t. import_nodes_accepted (es, stop) bs t = Inr (node_ops ?ops t, c, p))
      \<and> of_kind Company ?ops = of_kind Company (node_rows es)
      \<and> of_kind Person ?ops = of_kind Person (node_rows es)
      \<and> c = length (of_kind Company (node_rows es))
      \<and> p = length (of_kind Person (node_rows es))"
    using run j1 j2 j3 j4 cp
    by (simp add: import_nodes_accepted_def flush_nodes_ops node_ops_append of_kind_simps)
  then show ?thesis by blast
qed

lemma rel_ops_append: "rel_ops (ops @ ops') s = rel_ops ops' (rel_ops ops s)"
  by (simp add: rel_ops_def)

lemma rel_ops_Nil: "rel_ops [] s = s"
  by (simp add: rel_ops_def)

lemma flush_rels_ops:
  "flush_rels_accepted l batch s = (rel_ops (map (Pair l) batch) s, [])"
  by (simp add: flush_rels_accepted_def REL_CYPHER_def rel_ops_def fold_map comp_def)

lemma rel_rows_Cons:
  "rel_rows (e # es) =
     (case import_relationships_row e of Inr (Some tr) \<Rightarrow> [tr] | _ \<Rightarrow> []) @ rel_rows es"
  by (simp add: rel_rows_def)

lemma import_relationships_loop_step:
  assumes "import_relationships_row e = Inr x"
  shows "\<exists>pre db2 ob2 c2 p2.
      (\<forall>s es. import_relationships_loop_accepted bs (e # es) stop s db ob c p
            = import_relationships_loop_accepted bs es stop (rel_ops pre s) db2 ob2 c2 p2)
      \<and> of_kind DIRECTORSHIP pre @ db2 = db @ of_kind DIRECTORSHIP (rel_rows [e])
      \<and> of_kind OWNERSHIP pre @ ob2 = ob @ of_kind OWNERSHIP (rel_rows [e])
      \<and> c2 = c + length (of_kind DIRECTORSHIP (rel_rows [e]))
      \<and> p2 = p + length (of_kind OWNERSHIP (rel_rows [e]))"
proof (cases x)
  case None
  have "(\<forall>s es. import_relationships_loop_accepted bs (e # es) stop s db ob c p
            = import_relationships_loop_accepted bs es stop (rel_ops [] s) db ob c p)
      \<and> of_kind DIRECTORSHIP [] @ db = db @ of_kind DIRECTORSHIP (rel_rows [e])
      \<and> of_kind OWNERSHIP [] @ ob = ob @ of_kind OWNERSHIP (rel_rows [e])
      \<and> c = c + length (of_kind DIRECTORSHIP (rel_rows [e]))
      \<and> p = p + length (of_kind OWNERSHIP (rel_rows [e]))"
    using assms None by (simp add: rel_rows_def of_kind_simps rel_ops_Nil)
  then show ?thesis by blast
next
  case (Some tr)
  obtain l row where tr: "tr = (l, row)" by (cases tr)
  have rr: "rel_rows [e] = [(l, row)]" using assms Some tr by (simp add: rel_rows_def)
  show ?thesis
  proof (cases l)
    case DIRECTORSHIP
    show ?thesis
    proof (cases "bs \<le> int (length (db @ [row]))")
      case True
      have "(\<forall>s es. import_relationships_loop_accepted bs (e # es) stop s db ob c p
            = import_relationships_loop_accepted bs es stop (rel_ops (map (Pair DIRECTORSHIP) (db @ [row])) s)
                [] ob (c + 1) p)
        \<and> of_kind DIRECTORSHIP (map (Pair DIRECTORSHIP) (db @ [row])) @ [] = db @ of_kind DIRECTORSHIP (rel_rows [e])
        \<and> of_kind OWNERSHIP (map (Pair DIRECTORSHIP) (db @ [row])) @ ob = ob @ of_kind OWNERSHIP (rel_rows [e])
        \<and> c + 1 = c + length (of_kind DIRECTORSHIP (rel_rows [e]))
        \<and> p = p + length (of_kind OWNERSHIP (rel_rows [e]))"
        using assms Some tr DIRECTORSHIP True by (simp add: rr of_kind_simps flush_rels_ops)
      then show ?thesis by blast
    next
      case False
      have "(\<forall>s es. import_relationships_loop_accepted bs (e # es) stop s db ob c p
            = import_relationships_loop_accepted bs es stop (rel_ops [] s) (db @ [row]) ob (c + 1) p)
        \<and> of_kind DIRECTORSHIP [] @ (db @ [row]) = db @ of_kind DIRECTORSHIP (rel_rows [e])
        \<and> of_kind OWNERSHIP [] @ ob = ob @ of_kind OWNERSHIP (rel_rows [e])
        \<and> c + 1 = c + length (of_kind DIRECTORSHIP (rel_rows [e]))
        \<and> p = p + length (of_kind OWNERSHIP (rel_rows [e]))"
        using assms Some tr DIRECTORSHIP False by (simp add: rr of_kind_simps rel_ops_Nil)
      then show ?thesis by blast
    qed
  next
    case OWNERSHIP
    show ?thesis
    proof (cases "bs \<le> int (length (ob @ [row]))")
      case True
      have "(\<forall>s es. import_relationships_loop_accepted bs (e # es) stop s db ob c p
            = import_relationships_loop_accepted bs es stop (rel_ops (map (Pair OWNERSHIP) (ob @ [row])) s)
                db [] c (p + 1))
        \<and> of_kind DIRECTORSHIP (map (Pair OWNERSHIP) (ob @ [row])) @ db = db @ of_kind DIRECTORSHIP (rel_rows [e])
        \<and> of_kind OWNERSHIP (map (Pair OWNERSHIP) (ob @ [row])) @ [] = ob @ of_kind OWNERSHIP (rel_rows [e])
        \<and> c = c + length (of_kind DIRECTORSHIP (rel_rows [e]))
        \<and> p + 1 = p + length (of_kind OWNERSHIP (rel_rows [e]))"
        using assms Some tr OWNERSHIP True by (simp add: rr of_kind_simps flush_rels_ops)
      then show ?thesis by blast
    next
      case False
      have "(\<forall>s es. import_relationships_loop_accepted bs (e # es) stop s db ob c p
            = import_relationships_loop_accepted bs es stop (rel_ops [] s) db (ob @ [row]) c (p + 1))
        \<and> of_kind DIRECTORSHIP [] @ db = db @ of_kind DIRECTORSHIP (rel_rows [e])
        \<and> of_kind OWNERSHIP [] @ (ob @ [row]) = ob @ of_kind OWNERSHIP (rel_rows [e])
        \<and> c = c + length (of_kind DIRECTORSHIP (rel_rows [e]))
        \<and> p + 1 = p + length (of_kind OWNERSHIP (rel_rows [e]))"
        using assms Some tr OWNERSHIP False by (simp add: rr of_kind_simps rel_ops_Nil)
      then show ?thesis by blast
    qed
  qed
qed

lemma import_relationships_loop_Inl:
  "import_relationships_row e = Inl err \<Longrightarrow> import_relationships_loop_accepted bs (e # es) stop s db ob c p = Inl err"
  by simp

lemma import_relationships_loop_run:
  assumes "import_relationships_loop_accepted bs es stop s db ob c p = Inr (s', db', ob', c', p')"
  shows "\<exists>ops.
      (\<forall>t. import_relationships_loop_accepted bs es stop t db ob c p = Inr (rel_ops ops t, db', ob', c', p'))
      \<and> of_kind DIRECTORSHIP ops @ db' = db @ of_kind DIRECTORSHIP (rel_rows es)
      \<and> of_kind OWNERSHIP ops @ ob' = ob @ of_kind OWNERSHIP (rel_rows es)
      \<and> c' = c + length (of_kind DIRECTORSHIP (rel_rows es))
      \<and> p' = p + length (of_kind OWNERSHIP (rel_rows es))"
  using assms
proof (induction es arbitrary: s db ob c p)
  case Nil
  then have "stop = None" "db' = db" "ob' = ob" "c' = c" "p' = p"
    by (auto split: option.splits)
  then have "(\<forall>t. import_relationships_loop_accepted bs [] stop t db ob c p = Inr (rel_ops [] t, db', ob', c', p'))
      \<and> of_kind DIRECTORSHIP [] @ db' = db @ of_kind DIRECTORSHIP (rel_rows [])
      \<and> of_kind OWNERSHIP [] @ ob' = ob @ of_kind OWNERSHIP (rel_rows [])
      \<and> c' = c + length (of_kind DIRECTORSHIP (rel_rows []))
      \<and> p' = p + length (of_kind OWNERSHIP (rel_rows []))"
    by (simp add: rel_ops_Nil rel_rows_def of_kind_simps)
  then show ?case by blast
next
  case (Cons e es)
  obtain x where x: "import_relationships_row e = Inr x"
    using Cons.prems by (cases "import_relationships_row e") simp_all
  obtain pre db2 ob2 c2 p2 where
    step: "\<And>t es. import_relationships_loop_accepted bs (e # es) stop t db ob c p
            = import_relationships_loop_accepted bs es stop (rel_ops pre t) db2 ob2 c2 p2"
    and k1: "of_kind DIRECTORSHIP pre @ db2 = db @ of_kind DIRECTORSHIP (rel_rows [e])"
    and k2: "of_kind OWNERSHIP pre @ ob2 = ob @ of_kind OWNERSHIP (rel_rows [e])"
    and k3: "c2 = c + length (of_kind DIRECTORSHIP (rel_rows [e]))"
    and k4: "p2 = p + length (of_kind OWNERSHIP (rel_rows [e]))"
    using import_relationships_loop_step[OF x, of bs stop db ob c p] by blast
  have "import_relationships_loop_accepted bs es stop (rel_ops pre s) db2 ob2 c2 p2 = Inr (s', db', ob', c', p')"
    using Cons.prems step by simp
  from Cons.IH[OF this] obtain ops where
    run: "\<And>t. import_relationships_loop_accepted bs es stop t db2 ob2 c2 p2 = Inr (rel_ops ops t, db', ob', c', p')"
    and j1: "of_kind DIRECTORSHIP ops @ db' = db2 @ of_kind DIRECTORSHIP (rel_rows es)"
    and j2: "of_kind OWNERSHIP ops @ ob' = ob2 @ of_kind OWNERSHIP (rel_rows es)"
    and j3: "c' = c2 + length (of_kind DIRECTORSHIP (rel_rows es))"
    and j4: "p' = p2 + length (of_kind OWNERSHIP (rel_rows es))"
    by blast
  have rr: "rel_rows (e # es) = rel_rows [e] @ rel_rows es" by (simp add: rel_rows_def)
  have "(\<forall>t. import_relationships_loop_accepted bs (e # es) stop t db ob c p
          = Inr (rel_ops (pre @ ops) t, db', ob', c', p'))
      \<and> of_kind DIRECTORSHIP (pre @ ops) @ db' = db @ of_kind DIRECTORSHIP (rel_rows (e # es))
      \<and> of_kind OWNERSHIP (pre @ ops) @ ob' = ob @ of_kind OWNERSHIP (rel_rows (e # es))
      \<and> c' = c + length (of_kind DIRECTORSHIP (rel_rows (e # es)))
      \<and> p' = p + length (of_kind OWNERSHIP (rel_rows (e # es)))"
    using step run k1 k2 k3 k4 j1 j2 j3 j4 unfolding rr
    by (simp add: rel_ops_append of_kind_simps)
  then show ?case by blast
qed


lemma import_relationships_run:
  assumes "import_relationships_accepted (es, stop) bs s = Inr (s', d, ow)"
  shows "\<exists>ops.
      (\<forall>t. import_relationships_accepted (es, stop) bs t = Inr (rel_ops ops t, d, ow))
      \<and> of_kind DIRECTORSHIP ops = of_kind DIRECTORSHIP (rel_rows es)
      \<and> of_kind OWNERSHIP ops = of_kind OWNERSHIP (rel_rows es)
      \<and> d = length (of_kind DIRECTORSHIP (rel_rows es))
      \<and> ow = length (of_kind OWNERSHIP (rel_rows es))"
proof -
  obtain s1 db ob c1 p1 where
    loop: "import_relationships_loop_accepted bs es stop s [] [] 0 0 = Inr (s1, db, ob, c1, p1)"
    using assms by (auto simp: import_relationships_accepted_def split: sum.splits)
  then have cp: "c1 = d" "p1 = ow"
    using assms by (auto simp: import_relationships_accepted_def flush_rels_ops)
  from import_relationships_loop_run[OF loop] obtain ops where
    run: "\<And>t. import_relationships_loop_accepted bs es stop t [] [] 0 0 = Inr (rel_ops ops t, db, ob, c1, p1)"
    and j1: "of_kind DIRECTORSHIP ops @ db = [] @ of_kind DIRECTORSHIP (rel_rows es)"
    and j2: "of_kind OWNERSHIP ops @ ob = [] @ of_kind OWNERSHIP (rel_rows es)"
    and j3: "c1 = 0 + length (of_kind DIRECTORSHIP (rel_rows es))"
    and j4: "p1 = 0 + length (of_kind OWNERSHIP (rel_rows es))"
    by blast
  let ?ops = "ops @ map (Pair DIRECTORSHIP) db @ map (Pair OWNERSHIP) ob"
  have "(\<forall>t. import_relationships_accepted (es, stop) bs t = Inr (rel_ops ?ops t, d, ow))
      \<and> of_kind DIRECTORSHIP ?ops = of_kind DIRECTORSHIP (rel_rows es)
      \<and> of_kind OWNERSHIP ?ops = of_kind OWNERSHIP (rel_rows es)
      \<and> d = length (of_kind DIRECTORSHIP (rel_rows es))
      \<and> ow = length (of_kind OWNERSHIP (rel_rows es))"
    using run j1 j2 j3 j4 cp
    by (simp add: import_relationships_accepted_def flush_rels_ops rel_ops_append of_kind_simps)
  then show ?thesis by blast
qed

section \<open>Runs that complete\<close>

text \<open>
  A flush returns exactly when the driver can encode every row of the batch, and then it
  does what the statement does. So a pass that completes has sent only rows that can
  be encoded and agrees with the pass that leaves the encoding out; and on an input
  whose accepted rows can all be encoded the two passes agree altogether.
\<close>

lemma first_error_None: "first_error xs = None \<longleftrightarrow> (\<forall>x \<in> set xs. x = None)"
  by (induction xs rule: first_error.induct) simp_all

lemma pack_batch_None: "pack (JList (map f batch)) = None \<longleftrightarrow> (\<forall>row \<in> set batch. pack (f row) = None)"
  by (simp add: first_error_None)

lemma flush_nodes_Inr:
  assumes "flush_nodes l b s = Inr r"
  shows "r = flush_nodes_accepted l b s \<and> (\<forall>row \<in> set b. pack (node_row_dict row) = None)"
proof (cases "b = []")
  case True
  then show ?thesis using assms by (simp add: flush_nodes_def flush_nodes_accepted_def)
next
  case False
  then have "pack (JList (map node_row_dict b)) = None \<and> r = (NODE_CYPHER l b s, [])"
    using assms by (simp add: flush_nodes_def split: option.splits)
  then show ?thesis using False by (simp only: pack_batch_None flush_nodes_accepted_def) simp
qed

lemma flush_nodes_ok:
  assumes "\<forall>row \<in> set b. pack (node_row_dict row) = None"
  shows "flush_nodes l b s = Inr (flush_nodes_accepted l b s)"
proof -
  have "pack (JList (map node_row_dict b)) = None" using assms by (simp only: pack_batch_None)
  then show ?thesis by (simp add: flush_nodes_def flush_nodes_accepted_def)
qed

lemma flush_rels_Inr:
  assumes "flush_rels l b s = Inr r"
  shows "r = flush_rels_accepted l b s \<and> (\<forall>row \<in> set b. pack (rel_row_dict row) = None)"
proof (cases "b = []")
  case True
  then show ?thesis using assms by (simp add: flush_rels_def flush_rels_accepted_def)
next
  case False
  then have "pack (JList (map rel_row_dict b)) = None \<and> r = (REL_CYPHER l b s, [])"
    using assms by (simp add: flush_rels_def split: option.splits)
  then show ?thesis using False by (simp only: pack_batch_None flush_rels_accepted_def) simp
qed

lemma flush_rels_ok:
  assumes "\<forall>row \<in> set b. pack (rel_row_dict row) = None"
  shows "flush_rels l b s = Inr (flush_rels_accepted l b s)"
proof -
  have "pack (JList (map rel_row_dict b)) = None" using assms by (simp only: pack_batch_None)
  then show ?thesis by (simp add: flush_rels_def flush_rels_accepted_def)
qed

lemma flush_nodes_accepted_batch: "snd (flush_nodes_accepted l b s) = []"
  by (simp add: flush_nodes_accepted_def)

lemma flush_rels_accepted_batch: "snd (flush_rels_accepted l b s) = []"
  by (simp add: flush_rels_accepted_def)

lemma import_nodes_loop_Inr:
  assumes "import_nodes_loop bs es stop s cb pb c p = Inr (s', cb', pb', c', p')"
  shows "import_nodes_loop_accepted bs es stop s cb pb c p = Inr (s', cb', pb', c', p')
     \<and> ((\<forall>row \<in> set cb' \<union> set pb'. pack (node_row_dict row) = None) \<longrightarrow>
          (\<forall>row \<in> set cb \<union> set pb. pack (node_row_dict row) = None)
          \<and> (\<forall>op \<in> set (node_rows es). pack (node_row_dict (snd op)) = None))"
  using assms
proof (induction es arbitrary: s cb pb c p)
  case Nil
  then show ?case by (auto simp: node_rows_def split: option.splits)
next
  case (Cons e es)
  show ?case
  proof (cases "import_nodes_row e")
    case (Inl err)
    then show ?thesis using Cons.prems by simp
  next
    case (Inr x)
    show ?thesis
    proof (cases x)
      case None
      then show ?thesis using Cons.IH[of s cb pb c p] Cons.prems Inr by (simp add: node_rows_Cons)
    next
      case (Some lr)
      obtain l row where lr: "lr = (l, row)" by (cases lr)
      have nr: "node_rows (e # es) = (l, row) # node_rows es"
        using Inr Some lr by (simp add: node_rows_Cons)
      show ?thesis
      proof (cases l)
        case Company
        show ?thesis
        proof (cases "bs \<le> int (length (cb @ [row]))")
          case True
          have "\<exists>s1 b1. flush_nodes Company (cb @ [row]) s = Inr (s1, b1)
              \<and> import_nodes_loop bs es stop s1 b1 pb (c + 1) p = Inr (s', cb', pb', c', p')"
            using Cons.prems Inr Some lr Company True by (auto split: sum.splits)
          then obtain s1 b1 where f: "flush_nodes Company (cb @ [row]) s = Inr (s1, b1)"
            and rest: "import_nodes_loop bs es stop s1 b1 pb (c + 1) p = Inr (s', cb', pb', c', p')"
            by blast
          from flush_nodes_Inr[OF f] have fa: "flush_nodes_accepted Company (cb @ [row]) s = (s1, b1)"
            and ok: "\<forall>r \<in> set (cb @ [row]). pack (node_row_dict r) = None" by simp_all
          have acc: "import_nodes_loop_accepted bs (e # es) stop s cb pb c p
              = import_nodes_loop_accepted bs es stop s1 b1 pb (c + 1) p"
            using Inr Some lr Company True fa by simp
          from Cons.IH[OF rest] acc ok show ?thesis by (auto simp: nr)
        next
          case False
          have rest: "import_nodes_loop bs es stop s (cb @ [row]) pb (c + 1) p = Inr (s', cb', pb', c', p')"
            using Cons.prems Inr Some lr Company False by simp
          have acc: "import_nodes_loop_accepted bs (e # es) stop s cb pb c p
              = import_nodes_loop_accepted bs es stop s (cb @ [row]) pb (c + 1) p"
            using Inr Some lr Company False by simp
          from Cons.IH[OF rest] acc show ?thesis by (auto simp: nr)
        qed
      next
        case Person
        show ?thesis
        proof (cases "bs \<le> int (length (pb @ [row]))")
          case True
          have "\<exists>s1 b1. flush_nodes Person (pb @ [row]) s = Inr (s1, b1)
              \<and> import_nodes_loop bs es stop s1 cb b1 c (p + 1) = Inr (s', cb', pb', c', p')"
            using Cons.prems Inr Some lr Person True by (auto split: sum.splits)
          then obtain s1 b1 where f: "flush_nodes Person (pb @ [row]) s = Inr (s1, b1)"
            and rest: "import_nodes_loop bs es stop s1 cb b1 c (p + 1) = Inr (s', cb', pb', c', p')"
            by blast
          from flush_nodes_Inr[OF f] have fa: "flush_nodes_accepted Person (pb @ [row]) s = (s1, b1)"
            and ok: "\<forall>r \<in> set (pb @ [row]). pack (node_row_dict r) = None" by simp_all
          have acc: "import_nodes_loop_accepted bs (e # es) stop s cb pb c p
              = import_nodes_loop_accepted bs es stop s1 cb b1 c (p + 1)"
            using Inr Some lr Person True fa by simp
          from Cons.IH[OF rest] acc ok show ?thesis by (auto simp: nr)
        next
          case False
          have rest: "import_nodes_loop bs es stop s cb (pb @ [row]) c (p + 1) = Inr (s', cb', pb', c', p')"
            using Cons.prems Inr Some lr Person False by simp
          have acc: "import_nodes_loop_accepted bs (e # es) stop s cb pb c p
              = import_nodes_loop_accepted bs es stop s cb (pb @ [row]) c (p + 1)"
            using Inr Some lr Person False by simp
          from Cons.IH[OF rest] acc show ?thesis by (auto simp: nr)
        qed
      qed
    qed
  qed
qed

lemma import_nodes_loop_encodable:
  assumes "\<forall>row \<in> set cb \<union> set pb. pack (node_row_dict row) = None"
    and "\<forall>op \<in> set (node_rows es). pack (node_row_dict (snd op)) = None"
  shows "import_nodes_loop bs es stop s cb pb c p = import_nodes_loop_accepted bs es stop s cb pb c p"
  using assms
proof (induction es arbitrary: s cb pb c p)
  case Nil
  then show ?case by simp
next
  case (Cons e es)
  show ?case
  proof (cases "import_nodes_row e")
    case (Inl err)
    then show ?thesis by simp
  next
    case (Inr x)
    show ?thesis
    proof (cases x)
      case None
      then show ?thesis using Cons.IH[of cb pb s c p] Cons.prems Inr by (simp add: node_rows_Cons)
    next
      case (Some lr)
      obtain l row where lr: "lr = (l, row)" by (cases lr)
      have nr: "node_rows (e # es) = (l, row) # node_rows es"
        using Inr Some lr by (simp add: node_rows_Cons)
      have row: "pack (node_row_dict row) = None" and es: "\<forall>op \<in> set (node_rows es). pack (node_row_dict (snd op)) = None"
        using Cons.prems(2) by (simp_all add: nr)
      show ?thesis
      proof (cases l)
        case Company
        have ok: "\<forall>r \<in> set (cb @ [row]). pack (node_row_dict r) = None"
          using Cons.prems(1) row by auto
        show ?thesis
        proof (cases "bs \<le> int (length (cb @ [row]))")
          case True
          have f: "flush_nodes Company (cb @ [row]) s = Inr (flush_nodes_accepted Company (cb @ [row]) s)"
            by (rule flush_nodes_ok[OF ok])
          obtain s1 where fa: "flush_nodes_accepted Company (cb @ [row]) s = (s1, [])"
            by (simp add: flush_nodes_accepted_def)
          have "import_nodes_loop bs es stop s1 [] pb (c + 1) p
              = import_nodes_loop_accepted bs es stop s1 [] pb (c + 1) p"
            using Cons.IH[of "[]" pb s1 "c + 1" p] Cons.prems(1) es by simp
          then show ?thesis using Inr Some lr Company True f fa by simp
        next
          case False
          have "import_nodes_loop bs es stop s (cb @ [row]) pb (c + 1) p
              = import_nodes_loop_accepted bs es stop s (cb @ [row]) pb (c + 1) p"
            using Cons.IH[of "cb @ [row]" pb s "c + 1" p] Cons.prems(1) ok es by auto
          then show ?thesis using Inr Some lr Company False by simp
        qed
      next
        case Person
        have ok: "\<forall>r \<in> set (pb @ [row]). pack (node_row_dict r) = None"
          using Cons.prems(1) row by auto
        show ?thesis
        proof (cases "bs \<le> int (length (pb @ [row]))")
          case True
          have f: "flush_nodes Person (pb @ [row]) s = Inr (flush_nodes_accepted Person (pb @ [row]) s)"
            by (rule flush_nodes_ok[OF ok])
          obtain s1 where fa: "flush_nodes_accepted Person (pb @ [row]) s = (s1, [])"
            by (simp add: flush_nodes_accepted_def)
          have "import_nodes_loop bs es stop s1 cb [] c (p + 1)
              = import_nodes_loop_accepted bs es stop s1 cb [] c (p + 1)"
            using Cons.IH[of cb "[]" s1 c "p + 1"] Cons.prems(1) es by simp
          then show ?thesis using Inr Some lr Person True f fa by simp
        next
          case False
          have "import_nodes_loop bs es stop s cb (pb @ [row]) c (p + 1)
              = import_nodes_loop_accepted bs es stop s cb (pb @ [row]) c (p + 1)"
            using Cons.IH[of cb "pb @ [row]" s c "p + 1"] Cons.prems(1) ok es by auto
          then show ?thesis using Inr Some lr Person False by simp
        qed
      qed
    qed
  qed
qed

lemma import_nodes_Inr:
  assumes "import_nodes (es, stop) bs s = Inr res"
  shows "import_nodes_accepted (es, stop) bs s = Inr res
     \<and> (\<forall>op \<in> set (node_rows es). pack (node_row_dict (snd op)) = None)"
proof -
  from assms obtain s1 cb pb c p where
    loop: "import_nodes_loop bs es stop s [] [] 0 0 = Inr (s1, cb, pb, c, p)"
    by (auto simp: import_nodes_def split: sum.splits)
  from assms loop obtain s2 x where f1: "flush_nodes Company cb s1 = Inr (s2, x)"
    by (auto simp: import_nodes_def split: sum.splits)
  from assms loop f1 obtain s3 y where f2: "flush_nodes Person pb s2 = Inr (s3, y)"
    and res: "res = (s3, c, p)"
    by (auto simp: import_nodes_def split: sum.splits)
  from flush_nodes_Inr[OF f1] have a1: "flush_nodes_accepted Company cb s1 = (s2, x)"
    and o1: "\<forall>row \<in> set cb. pack (node_row_dict row) = None" by simp_all
  from flush_nodes_Inr[OF f2] have a2: "flush_nodes_accepted Person pb s2 = (s3, y)"
    and o2: "\<forall>row \<in> set pb. pack (node_row_dict row) = None" by simp_all
  from import_nodes_loop_Inr[OF loop] o1 o2
  have acc: "import_nodes_loop_accepted bs es stop s [] [] 0 0 = Inr (s1, cb, pb, c, p)"
    and ok: "\<forall>op \<in> set (node_rows es). pack (node_row_dict (snd op)) = None"
    by auto
  have "import_nodes_accepted (es, stop) bs s = Inr res"
    by (simp add: import_nodes_accepted_def acc a1 a2 res)
  then show ?thesis using ok by simp
qed

lemma import_relationships_loop_Inr:
  assumes "import_relationships_loop bs es stop s cb pb c p = Inr (s', cb', pb', c', p')"
  shows "import_relationships_loop_accepted bs es stop s cb pb c p = Inr (s', cb', pb', c', p')
     \<and> ((\<forall>row \<in> set cb' \<union> set pb'. pack (rel_row_dict row) = None) \<longrightarrow>
          (\<forall>row \<in> set cb \<union> set pb. pack (rel_row_dict row) = None)
          \<and> (\<forall>op \<in> set (rel_rows es). pack (rel_row_dict (snd op)) = None))"
  using assms
proof (induction es arbitrary: s cb pb c p)
  case Nil
  then show ?case by (auto simp: rel_rows_def split: option.splits)
next
  case (Cons e es)
  show ?case
  proof (cases "import_relationships_row e")
    case (Inl err)
    then show ?thesis using Cons.prems by simp
  next
    case (Inr x)
    show ?thesis
    proof (cases x)
      case None
      then show ?thesis using Cons.IH[of s cb pb c p] Cons.prems Inr by (simp add: rel_rows_Cons)
    next
      case (Some lr)
      obtain l row where lr: "lr = (l, row)" by (cases lr)
      have nr: "rel_rows (e # es) = (l, row) # rel_rows es"
        using Inr Some lr by (simp add: rel_rows_Cons)
      show ?thesis
      proof (cases l)
        case DIRECTORSHIP
        show ?thesis
        proof (cases "bs \<le> int (length (cb @ [row]))")
          case True
          have "\<exists>s1 b1. flush_rels DIRECTORSHIP (cb @ [row]) s = Inr (s1, b1)
              \<and> import_relationships_loop bs es stop s1 b1 pb (c + 1) p = Inr (s', cb', pb', c', p')"
            using Cons.prems Inr Some lr DIRECTORSHIP True by (auto split: sum.splits)
          then obtain s1 b1 where f: "flush_rels DIRECTORSHIP (cb @ [row]) s = Inr (s1, b1)"
            and rest: "import_relationships_loop bs es stop s1 b1 pb (c + 1) p = Inr (s', cb', pb', c', p')"
            by blast
          from flush_rels_Inr[OF f] have fa: "flush_rels_accepted DIRECTORSHIP (cb @ [row]) s = (s1, b1)"
            and ok: "\<forall>r \<in> set (cb @ [row]). pack (rel_row_dict r) = None" by simp_all
          have acc: "import_relationships_loop_accepted bs (e # es) stop s cb pb c p
              = import_relationships_loop_accepted bs es stop s1 b1 pb (c + 1) p"
            using Inr Some lr DIRECTORSHIP True fa by simp
          from Cons.IH[OF rest] acc ok show ?thesis by (auto simp: nr)
        next
          case False
          have rest: "import_relationships_loop bs es stop s (cb @ [row]) pb (c + 1) p = Inr (s', cb', pb', c', p')"
            using Cons.prems Inr Some lr DIRECTORSHIP False by simp
          have acc: "import_relationships_loop_accepted bs (e # es) stop s cb pb c p
              = import_relationships_loop_accepted bs es stop s (cb @ [row]) pb (c + 1) p"
            using Inr Some lr DIRECTORSHIP False by simp
          from Cons.IH[OF rest] acc show ?thesis by (auto simp: nr)
        qed
      next
        case OWNERSHIP
        show ?thesis
        proof (cases "bs \<le> int (length (pb @ [row]))")
          case True
          have "\<exists>s1 b1. flush_rels OWNERSHIP (pb @ [row]) s = Inr (s1, b1)
              \<and> import_relationships_loop bs es stop s1 cb b1 c (p + 1) = Inr (s', cb', pb', c', p')"
            using Cons.prems Inr Some lr OWNERSHIP True by (auto split: sum.splits)
          then obtain s1 b1 where f: "flush_rels OWNERSHIP (pb @ [row]) s = Inr (s1, b1)"
            and rest: "import_relationships_loop bs es stop s1 cb b1 c (p + 1) = Inr (s', cb', pb', c', p')"
            by blast
          from flush_rels_Inr[OF f] have fa: "flush_rels_accepted OWNERSHIP (pb @ [row]) s = (s1, b1)"
            and ok: "\<forall>r \<in> set (pb @ [row]). pack (rel_row_dict r) = None" by simp_all
          have acc: "import_relationships_loop_accepted bs (e # es) stop s cb pb c p
              = import_relationships_loop_accepted bs es stop s1 cb b1 c (p + 1)"
            using Inr Some lr OWNERSHIP True fa by simp
          from Cons.IH[OF rest] acc ok show ?thesis by (auto simp: nr)
        next
          case False
          have rest: "import_relationships_loop bs es stop s cb (pb @ [row]) c (p + 1) = Inr (s', cb', pb', c', p')"
            using Cons.prems Inr Some lr OWNERSHIP False by simp
          have acc: "import_relationships_loop_accepted bs (e # es) stop s cb pb c p
              = import_relationships_loop_accepted bs es stop s cb (pb @ [row]) c (p + 1)"
            using Inr Some lr OWNERSHIP False by simp
          from Cons.IH[OF rest] acc show ?thesis by (auto simp: nr)
        qed
      qed
    qed
  qed
qed

lemma import_relationships_loop_encodable:
  assumes "\<forall>row \<in> set cb \<union> set pb. pack (rel_row_dict row) = None"
    and "\<forall>op \<in> set (rel_rows es). pack (rel_row_dict (snd op)) = None"
  shows "import_relationships_loop bs es stop s cb pb c p = import_relationships_loop_accepted bs es stop s cb pb c p"
  using assms
proof (induction es arbitrary: s cb pb c p)
  case Nil
  then show ?case by simp
next
  case (Cons e es)
  show ?case
  proof (cases "import_relationships_row e")
    case (Inl err)
    then show ?thesis by simp
  next
    case (Inr x)
    show ?thesis
    proof (cases x)
      case None
      then show ?thesis using Cons.IH[of cb pb s c p] Cons.prems Inr by (simp add: rel_rows_Cons)
    next
      case (Some lr)
      obtain l row where lr: "lr = (l, row)" by (cases lr)
      have nr: "rel_rows (e # es) = (l, row) # rel_rows es"
        using Inr Some lr by (simp add: rel_rows_Cons)
      have row: "pack (rel_row_dict row) = None" and es: "\<forall>op \<in> set (rel_rows es). pack (rel_row_dict (snd op)) = None"
        using Cons.prems(2) by (simp_all add: nr)
      show ?thesis
      proof (cases l)
        case DIRECTORSHIP
        have ok: "\<forall>r \<in> set (cb @ [row]). pack (rel_row_dict r) = None"
          using Cons.prems(1) row by auto
        show ?thesis
        proof (cases "bs \<le> int (length (cb @ [row]))")
          case True
          have f: "flush_rels DIRECTORSHIP (cb @ [row]) s = Inr (flush_rels_accepted DIRECTORSHIP (cb @ [row]) s)"
            by (rule flush_rels_ok[OF ok])
          obtain s1 where fa: "flush_rels_accepted DIRECTORSHIP (cb @ [row]) s = (s1, [])"
            by (simp add: flush_rels_accepted_def)
          have "import_relationships_loop bs es stop s1 [] pb (c + 1) p
              = import_relationships_loop_accepted bs es stop s1 [] pb (c + 1) p"
            using Cons.IH[of "[]" pb s1 "c + 1" p] Cons.prems(1) es by simp
          then show ?thesis using Inr Some lr DIRECTORSHIP True f fa by simp
        next
          case False
          have "import_relationships_loop bs es stop s (cb @ [row]) pb (c + 1) p
              = import_relationships_loop_accepted bs es stop s (cb @ [row]) pb (c + 1) p"
            using Cons.IH[of "cb @ [row]" pb s "c + 1" p] Cons.prems(1) ok es by auto
          then show ?thesis using Inr Some lr DIRECTORSHIP False by simp
        qed
      next
        case OWNERSHIP
        have ok: "\<forall>r \<in> set (pb @ [row]). pack (rel_row_dict r) = None"
          using Cons.prems(1) row by auto
        show ?thesis
        proof (cases "bs \<le> int (length (pb @ [row]))")
          case True
          have f: "flush_rels OWNERSHIP (pb @ [row]) s = Inr (flush_rels_accepted OWNERSHIP (pb @ [row]) s)"
            by (rule flush_rels_ok[OF ok])
          obtain s1 where fa: "flush_rels_accepted OWNERSHIP (pb @ [row]) s = (s1, [])"
            by (simp add: flush_rels_accepted_def)
          have "import_relationships_loop bs es stop s1 cb [] c (p + 1)
              = import_relationships_loop_accepted bs es stop s1 cb [] c (p + 1)"
            using Cons.IH[of cb "[]" s1 c "p + 1"] Cons.prems(1) es by simp
          then show ?thesis using Inr Some lr OWNERSHIP True f fa by simp
        next
          case False
          have "import_relationships_loop bs es stop s cb (pb @ [row]) c (p + 1)
              = import_relationships_loop_accepted bs es stop s cb (pb @ [row]) c (p + 1)"
            using Cons.IH[of cb "pb @ [row]" s c "p + 1"] Cons.prems(1) ok es by auto
          then show ?thesis using Inr Some lr OWNERSHIP False by simp
        qed
      qed
    qed
  qed
qed

lemma import_relationships_Inr:
  assumes "import_relationships (es, stop) bs s = Inr res"
  shows "import_relationships_accepted (es, stop) bs s = Inr res
     \<and> (\<forall>op \<in> set (rel_rows es). pack (rel_row_dict (snd op)) = None)"
proof -
  from assms obtain s1 cb pb c p where
    loop: "import_relationships_loop bs es stop s [] [] 0 0 = Inr (s1, cb, pb, c, p)"
    by (auto simp: import_relationships_def split: sum.splits)
  from assms loop obtain s2 x where f1: "flush_rels DIRECTORSHIP cb s1 = Inr (s2, x)"
    by (auto simp: import_relationships_def split: sum.splits)
  from assms loop f1 obtain s3 y where f2: "flush_rels OWNERSHIP pb s2 = Inr (s3, y)"
    and res: "res = (s3, c, p)"
    by (auto simp: import_relationships_def split: sum.splits)
  from flush_rels_Inr[OF f1] have a1: "flush_rels_accepted DIRECTORSHIP cb s1 = (s2, x)"
    and o1: "\<forall>row \<in> set cb. pack (rel_row_dict row) = None" by simp_all
  from flush_rels_Inr[OF f2] have a2: "flush_rels_accepted OWNERSHIP pb s2 = (s3, y)"
    and o2: "\<forall>row \<in> set pb. pack (rel_row_dict row) = None" by simp_all
  from import_relationships_loop_Inr[OF loop] o1 o2
  have acc: "import_relationships_loop_accepted bs es stop s [] [] 0 0 = Inr (s1, cb, pb, c, p)"
    and ok: "\<forall>op \<in> set (rel_rows es). pack (rel_row_dict (snd op)) = None"
    by auto
  have "import_relationships_accepted (es, stop) bs s = Inr res"
    by (simp add: import_relationships_accepted_def acc a1 a2 res)
  then show ?thesis using ok by simp
qed

lemma import_nodes_encodable:
  assumes ok: "\<forall>op \<in> set (node_rows es). pack (node_row_dict (snd op)) = None"
  shows "import_nodes (es, stop) bs s = import_nodes_accepted (es, stop) bs s"
proof -
  have loop: "import_nodes_loop bs es stop s [] [] 0 0 = import_nodes_loop_accepted bs es stop s [] [] 0 0"
    using import_nodes_loop_encodable[of "[]" "[]" es bs stop s 0 0] ok by simp
  show ?thesis
  proof (cases "import_nodes_loop_accepted bs es stop s [] [] 0 0")
    case (Inl e)
    then show ?thesis by (simp add: import_nodes_def import_nodes_accepted_def loop)
  next
    case (Inr res)
    obtain s1 cb pb c p where res: "res = (s1, cb, pb, c, p)" by (cases res)
    from import_nodes_loop_run[OF Inr[unfolded res]] obtain ops where
      c: "of_kind Company ops @ cb = [] @ of_kind Company (node_rows es)"
      and p: "of_kind Person ops @ pb = [] @ of_kind Person (node_rows es)"
      by blast
    have "set cb \<subseteq> set (of_kind Company (node_rows es))"
      using c by (metis append_Nil set_append sup_ge2)
    then have ocb: "\<forall>row \<in> set cb. pack (node_row_dict row) = None"
      using ok by (auto simp: of_kind_def)
    have "set pb \<subseteq> set (of_kind Person (node_rows es))"
      using p by (metis append_Nil set_append sup_ge2)
    then have opb: "\<forall>row \<in> set pb. pack (node_row_dict row) = None"
      using ok by (auto simp: of_kind_def)
    show ?thesis
      by (simp add: import_nodes_def import_nodes_accepted_def loop Inr res
          flush_nodes_ok[OF ocb] flush_nodes_ok[OF opb] split: prod.splits)
  qed
qed

lemma import_relationships_encodable:
  assumes ok: "\<forall>op \<in> set (rel_rows es). pack (rel_row_dict (snd op)) = None"
  shows "import_relationships (es, stop) bs s = import_relationships_accepted (es, stop) bs s"
proof -
  have loop: "import_relationships_loop bs es stop s [] [] 0 0 = import_relationships_loop_accepted bs es stop s [] [] 0 0"
    using import_relationships_loop_encodable[of "[]" "[]" es bs stop s 0 0] ok by simp
  show ?thesis
  proof (cases "import_relationships_loop_accepted bs es stop s [] [] 0 0")
    case (Inl e)
    then show ?thesis by (simp add: import_relationships_def import_relationships_accepted_def loop)
  next
    case (Inr res)
    obtain s1 cb pb c p where res: "res = (s1, cb, pb, c, p)" by (cases res)
    from import_relationships_loop_run[OF Inr[unfolded res]] obtain ops where
      c: "of_kind DIRECTORSHIP ops @ cb = [] @ of_kind DIRECTORSHIP (rel_rows es)"
      and p: "of_kind OWNERSHIP ops @ pb = [] @ of_kind OWNERSHIP (rel_rows es)"
      by blast
    have "set cb \<subseteq> set (of_kind DIRECTORSHIP (rel_rows es))"
      using c by (metis append_Nil set_append sup_ge2)
    then have ocb: "\<forall>row \<in> set cb. pack (rel_row_dict row) = None"
      using ok by (auto simp: of_kind_def)
    have "set pb \<subseteq> set (of_kind OWNERSHIP (rel_rows es))"
      using p by (metis append_Nil set_append sup_ge2)
    then have opb: "\<forall>row \<in> set pb. pack (rel_row_dict row) = None"
      using ok by (auto simp: of_kind_def)
    show ?thesis
      by (simp add: import_relationships_def import_relationships_accepted_def loop Inr res
          flush_rels_ok[OF ocb] flush_rels_ok[OF opb] split: prod.splits)
  qed
qed

lemma main_Inr:
  assumes "main (es, stop) bs s = Inr res"
  shows "main_accepted (es, stop) bs s = Inr res \<and> encodable es"
proof -
  from assms obtain s1 c p where n: "import_nodes (es, stop) bs s = Inr (s1, c, p)"
    by (auto simp: main_def split: sum.splits)
  from assms n obtain s2 d ow where r: "import_relationships (es, stop) bs s1 = Inr (s2, d, ow)"
    and res: "res = (s2, (c, p), (d, ow))"
    by (auto simp: main_def split: sum.splits)
  from import_nodes_Inr[OF n] import_relationships_Inr[OF r] show ?thesis
    by (simp add: main_accepted_def encodable_def res)
qed

lemma main_encodable:
  assumes "encodable es"
  shows "main (es, stop) bs s = main_accepted (es, stop) bs s"
proof -
  have n: "import_nodes (es, stop) bs s = import_nodes_accepted (es, stop) bs s"
    using assms by (simp add: encodable_def import_nodes_encodable)
  have r: "\<And>t. import_relationships (es, stop) bs t = import_relationships_accepted (es, stop) bs t"
    using assms by (simp add: encodable_def import_relationships_encodable)
  show ?thesis unfolding main_def main_accepted_def n r ..
qed

section \<open>Running the ingestion twice\<close>

lemma node_laws: "merge_laws node_matches node_assign"
  by (simp add: merge_laws_def node_matches_def node_assign_def)

lemma rel_laws: "merge_laws rel_matches rel_assign"
  by (simp add: merge_laws_def rel_matches_def rel_assign_def split: prod.splits)

lemma node_matches_create: "row_id (snd op) \<noteq> JNull \<Longrightarrow> node_matches op (node_create op)"
  by (simp add: node_matches_def node_create_def prop_eq_def)

lemma rel_matches_create: "rel_id (fst (snd q)) \<noteq> JNull \<Longrightarrow> rel_matches q (rel_create q)"
  by (cases q) (simp add: rel_matches_def rel_create_def prop_eq_def)

lemma truthy_not_null: "truthy v \<Longrightarrow> v \<noteq> JNull"
  by auto

lemma node_ops_nodes:
  "node_ops ops s = s\<lparr> nodes := fold (merge_set node_matches node_assign node_create) ops (nodes s) \<rparr>"
proof (induction ops arbitrary: s)
  case Nil
  then show ?case by (simp add: node_ops_def)
next
  case (Cons op ops)
  have "node_ops (op # ops) s = node_ops ops (node_cypher_row (fst op) (snd op) s)"
    by (simp add: node_ops_def)
  then show ?case by (simp add: Cons.IH node_cypher_row_def)
qed

lemma nodes_rel_ops: "nodes (rel_ops ops s) = nodes s"
  unfolding rel_ops_def by (induction ops arbitrary: s) (simp_all add: nodes_rel_cypher_row)

lemma rel_ops_rels:
  "rel_ops ops s =
     s\<lparr> rels := fold (merge_set rel_matches rel_assign rel_create) (rel_binds ops (nodes s)) (rels s) \<rparr>"
proof (induction ops arbitrary: s)
  case Nil
  then show ?case by (simp add: rel_ops_def rel_binds_def)
next
  case (Cons op ops)
  have a: "rel_ops (op # ops) s = rel_ops ops (rel_cypher_row (fst op) (snd op) s)"
    by (simp add: rel_ops_def)
  have b: "rel_cypher_row (fst op) (snd op) s =
      s\<lparr> rels := fold (merge_set rel_matches rel_assign rel_create)
                    (map (\<lambda>ab. (fst op, snd op, ab)) (rel_bindings (snd op) (nodes s))) (rels s) \<rparr>"
    by (simp add: rel_cypher_row_def fold_map comp_def)
  have c: "rel_binds (op # ops) (nodes s) =
      map (\<lambda>ab. (fst op, snd op, ab)) (rel_bindings (snd op) (nodes s)) @ rel_binds ops (nodes s)"
    by (simp add: rel_binds_def)
  show ?case unfolding a Cons.IH c by (simp add: b)
qed

lemma node_ops_idem:
  assumes "\<forall>op \<in> set ops. row_id (snd op) \<noteq> JNull"
  shows "node_ops ops (node_ops ops s) = node_ops ops s"
proof -
  have "\<forall>op \<in> set ops. node_matches op (node_create op)"
    using assms node_matches_create by blast
  then have "fold (merge_set node_matches node_assign node_create) ops
        (fold (merge_set node_matches node_assign node_create) ops (nodes s))
      = fold (merge_set node_matches node_assign node_create) ops (nodes s)"
    by (rule fold_merge_set_idem[OF node_laws])
  then show ?thesis by (simp add: node_ops_nodes)
qed

lemma rel_binds_ids:
  "\<forall>op \<in> set ops. rel_id (snd op) \<noteq> JNull \<Longrightarrow>
   \<forall>q \<in> set (rel_binds ops ns). rel_id (fst (snd q)) \<noteq> JNull"
  by (auto simp: rel_binds_def)

lemma rel_ops_idem:
  assumes "\<forall>op \<in> set ops. rel_id (snd op) \<noteq> JNull"
  shows "rel_ops ops (rel_ops ops s) = rel_ops ops s"
proof -
  let ?bs = "rel_binds ops (nodes s)"
  have "\<forall>q \<in> set ?bs. rel_matches q (rel_create q)"
    using rel_binds_ids[OF assms] rel_matches_create by blast
  then have "fold (merge_set rel_matches rel_assign rel_create) ?bs
        (fold (merge_set rel_matches rel_assign rel_create) ?bs (rels s))
      = fold (merge_set rel_matches rel_assign rel_create) ?bs (rels s)"
    by (rule fold_merge_set_idem[OF rel_laws])
  then show ?thesis by (simp add: rel_ops_rels)
qed

lemma rels_node_ops: "rels (node_ops ops s) = rels s"
  by (simp add: node_ops_nodes)

lemma node_ops_after_rel_ops:
  assumes "\<forall>op \<in> set ops. row_id (snd op) \<noteq> JNull"
  shows "node_ops ops (rel_ops rops (node_ops ops s)) = rel_ops rops (node_ops ops s)"
proof -
  let ?s2 = "rel_ops rops (node_ops ops s)"
  have n: "nodes ?s2 = nodes (node_ops ops s)" by (rule nodes_rel_ops)
  have "nodes (node_ops ops (node_ops ops s)) = nodes (node_ops ops s)"
    using node_ops_idem[OF assms] by simp
  then have "fold (merge_set node_matches node_assign node_create) ops (nodes ?s2) = nodes ?s2"
    unfolding n by (simp add: node_ops_nodes)
  then have "node_ops ops ?s2 = ?s2\<lparr> nodes := nodes ?s2 \<rparr>"
    using node_ops_nodes[of ops ?s2] by simp
  then show ?thesis by simp
qed

lemma in_of_kind: "((k, r) \<in> set ops) = (r \<in> set (of_kind k ops))"
  by (force simp: of_kind_def)

lemma same_kinds_same_set:
  assumes "of_kind Company ops = of_kind Company ops'"
    and "of_kind Person ops = of_kind Person ops'"
  shows "set ops = set ops'"
proof -
  have "\<And>l r. ((l, r) \<in> set ops) = ((l, r) \<in> set ops')"
  proof -
    fix l :: label and r
    show "((l, r) \<in> set ops) = ((l, r) \<in> set ops')"
      using assms by (cases l) (simp_all add: in_of_kind)
  qed
  then show ?thesis by auto
qed

lemma same_types_same_set:
  assumes "of_kind DIRECTORSHIP ops = of_kind DIRECTORSHIP ops'"
    and "of_kind OWNERSHIP ops = of_kind OWNERSHIP ops'"
  shows "set ops = set ops'"
proof -
  have "\<And>l r. ((l, r) \<in> set ops) = ((l, r) \<in> set ops')"
  proof -
    fix l :: rel_type and r
    show "((l, r) \<in> set ops) = ((l, r) \<in> set ops')"
      using assms by (cases l) (simp_all add: in_of_kind)
  qed
  then show ?thesis by auto
qed

lemma import_nodes_row_truthy:
  assumes "import_nodes_row e = Inr (Some lr)"
  shows "truthy (row_id (snd lr))"
proof (cases "to_node_row e")
  case (Inl err)
  then show ?thesis using assms by (simp add: import_nodes_row_def Let_def split: if_splits)
next
  case (Inr row)
  then show ?thesis using assms
    by (cases "truthy (row_id row)") (auto simp: import_nodes_row_def Let_def split: if_splits)
qed

lemma import_relationships_row_truthy:
  assumes "import_relationships_row e = Inr (Some tr)"
  shows "truthy (rel_id (snd tr))"
proof (cases "to_rel_row e")
  case (Inl err)
  then show ?thesis using assms
    by (simp add: import_relationships_row_def Let_def split: if_splits)
next
  case (Inr x)
  show ?thesis
  proof (cases x)
    case None
    then show ?thesis using assms Inr
      by (simp add: import_relationships_row_def Let_def split: if_splits)
  next
    case (Some tr')
    obtain ty row where tr': "tr' = (ty, row)" by (cases tr')
    show ?thesis using assms Inr Some tr'
      by (cases "truthy (rel_id row)")
         (auto simp: import_relationships_row_def Let_def split: if_splits)
  qed
qed

lemma node_rows_truthy: "op \<in> set (node_rows es) \<Longrightarrow> truthy (row_id (snd op))"
proof -
  assume "op \<in> set (node_rows es)"
  then obtain e where "import_nodes_row e = Inr (Some op)"
    by (auto simp: node_rows_def split: sum.splits option.splits)
  then show ?thesis by (rule import_nodes_row_truthy)
qed

lemma rel_rows_truthy: "op \<in> set (rel_rows es) \<Longrightarrow> truthy (rel_id (snd op))"
proof -
  assume "op \<in> set (rel_rows es)"
  then obtain e where "import_relationships_row e = Inr (Some op)"
    by (auto simp: rel_rows_def split: sum.splits option.splits)
  then show ?thesis by (rule import_relationships_row_truthy)
qed

lemma main_idempotent:
  assumes "main_accepted (es, stop) bs s = Inr (s2, (c, p), (d, ow))"
  shows "main_accepted (es, stop) bs s2 = Inr (s2, (c, p), (d, ow))"
proof -
  obtain s1 where n: "import_nodes_accepted (es, stop) bs s = Inr (s1, c, p)"
    and r: "import_relationships_accepted (es, stop) bs s1 = Inr (s2, d, ow)"
    using assms by (auto simp: main_accepted_def split: sum.splits)
  from import_nodes_run[OF n] obtain ops where
    nrun: "\<And>t. import_nodes_accepted (es, stop) bs t = Inr (node_ops ops t, c, p)"
    and nk: "of_kind Company ops = of_kind Company (node_rows es)"
        "of_kind Person ops = of_kind Person (node_rows es)"
    by blast
  from import_relationships_run[OF r] obtain rops where
    rrun: "\<And>t. import_relationships_accepted (es, stop) bs t = Inr (rel_ops rops t, d, ow)"
    and rk: "of_kind DIRECTORSHIP rops = of_kind DIRECTORSHIP (rel_rows es)"
        "of_kind OWNERSHIP rops = of_kind OWNERSHIP (rel_rows es)"
    by blast
  have s1: "s1 = node_ops ops s" using n nrun[of s] by simp
  have s2: "s2 = rel_ops rops s1" using r rrun[of s1] by simp
  have "set ops = set (node_rows es)" by (rule same_kinds_same_set[OF nk])
  then have ids: "\<forall>op \<in> set ops. row_id (snd op) \<noteq> JNull"
    using node_rows_truthy truthy_not_null by blast
  have "set rops = set (rel_rows es)" by (rule same_types_same_set[OF rk])
  then have rids: "\<forall>op \<in> set rops. rel_id (snd op) \<noteq> JNull"
    using rel_rows_truthy truthy_not_null by blast
  have a: "node_ops ops s2 = s2"
    unfolding s2 s1 by (rule node_ops_after_rel_ops[OF ids])
  have b: "rel_ops rops s2 = s2"
    unfolding s2 by (rule rel_ops_idem[OF rids])
  show ?thesis by (simp add: main_accepted_def nrun rrun a b)
qed

lemma main_idempotent_run:
  assumes "main (es, stop) bs s = Inr (s2, counts)"
  shows "main (es, stop) bs s2 = Inr (s2, counts)"
proof -
  obtain c p d ow where counts: "counts = ((c, p), (d, ow))" by (cases counts) auto
  have acc: "main_accepted (es, stop) bs s = Inr (s2, (c, p), (d, ow))" and enc: "encodable es"
    using main_Inr[OF assms] counts by simp_all
  show ?thesis using main_idempotent[OF acc] main_encodable[OF enc] counts by simp
qed

section \<open>Order of the input\<close>

lemma import_nodes_loop_filter:
  "import_nodes_loop bs es stop s cb pb c p
     = import_nodes_loop bs (filter node_schema es) stop s cb pb c p"
proof (induction es arbitrary: s cb pb c p)
  case Nil
  then show ?case by simp
next
  case (Cons e es)
  show ?case
  proof (cases "node_schema e")
    case False
    then have "import_nodes_row e = Inr None"
      by (simp add: node_schema_def import_nodes_row_def)
    then show ?thesis using False Cons.IH by simp
  next
    case True
    have "import_nodes_loop bs (e # es) stop s cb pb c p
        = import_nodes_loop bs (e # filter node_schema es) stop s cb pb c p"
      by (simp add: Cons.IH split: sum.splits option.splits prod.splits label.splits)
    then show ?thesis using True by simp
  qed
qed

lemma import_relationships_loop_filter:
  "import_relationships_loop bs es stop s db ob c p
     = import_relationships_loop bs (filter edge_schema es) stop s db ob c p"
proof (induction es arbitrary: s db ob c p)
  case Nil
  then show ?case by simp
next
  case (Cons e es)
  show ?case
  proof (cases "edge_schema e")
    case False
    then have "import_relationships_row e = Inr None"
      by (simp add: edge_schema_def import_relationships_row_def)
    then show ?thesis using False Cons.IH by simp
  next
    case True
    have "import_relationships_loop bs (e # es) stop s db ob c p
        = import_relationships_loop bs (e # filter edge_schema es) stop s db ob c p"
      by (simp add: Cons.IH split: sum.splits option.splits prod.splits rel_type.splits)
    then show ?thesis using True by simp
  qed
qed

lemma interleaving_same_outcome:
  assumes "filter node_schema es = filter node_schema es'"
    and "filter edge_schema es = filter edge_schema es'"
  shows "main (es, stop) bs s = main (es', stop) bs s"
proof -
  have n: "\<And>t. import_nodes (es, stop) bs t = import_nodes (es', stop) bs t"
    using assms(1) import_nodes_loop_filter[of bs es stop] import_nodes_loop_filter[of bs es' stop]
    by (simp add: import_nodes_def)
  have r: "\<And>t. import_relationships (es, stop) bs t = import_relationships (es', stop) bs t"
    using assms(2) import_relationships_loop_filter[of bs es stop]
      import_relationships_loop_filter[of bs es' stop]
    by (simp add: import_relationships_def)
  show ?thesis unfolding main_def n r ..
qed

section \<open>The counts\<close>

text \<open>
  C9, as stated, fails: the only record below is a Directorship whose director and
  organization are no nodes. The run reports one DIRECTORSHIP, and the store has no
  relationship: none was created or updated.
\<close>

theorem count_includes_dangling_row:
  "main ([[(''id'', JStr ''D1''), (''schema'', JStr ''Directorship''),
           (''properties'', JObj [(''director'', JList [JStr ''P9'']),
                                  (''organization'', JList [JStr ''C9''])])]], None)
        5000 \<lparr> nodes = [], rels = [] \<rparr>
     = Inr (\<lparr> nodes = [], rels = [] \<rparr>, (0, 0), (1, 0))"
  by code_simp

text \<open>
  C9, amended. A run that completes reports, for Company and for Person, the number of
  node rows the node pass accepted (records of that schema with an identifier), and,
  for DIRECTORSHIP and for OWNERSHIP, the number of edge rows the relationship pass
  accepted (records of that schema with an identifier and both end identifiers).
  These are the rows submitted for upsert; an edge row is counted whether or not its
  ends resolve.
\<close>

theorem counts_are_rows_submitted:
  assumes "main (es, stop) bs s = Inr (s', (companies, persons), (directorships, ownerships))"
  shows "companies = length (of_kind Company (node_rows es))
       \<and> persons = length (of_kind Person (node_rows es))
       \<and> directorships = length (of_kind DIRECTORSHIP (rel_rows es))
       \<and> ownerships = length (of_kind OWNERSHIP (rel_rows es))"
proof -
  have acc: "main_accepted (es, stop) bs s = Inr (s', (companies, persons), (directorships, ownerships))"
    using main_Inr[OF assms] by simp
  obtain s1 where n: "import_nodes_accepted (es, stop) bs s = Inr (s1, companies, persons)"
    and r: "import_relationships_accepted (es, stop) bs s1 = Inr (s', directorships, ownerships)"
    using acc by (auto simp: main_accepted_def split: sum.splits)
  show ?thesis using import_nodes_run[OF n] import_relationships_run[OF r] by blast
qed

theorem counts_are_rows_submitted_witness:
  "main ([[(''id'', JStr ''C1''), (''schema'', JStr ''Company''),
           (''properties'', JObj [(''name'', JList [JStr ''Acme''])])],
          [(''id'', JStr ''P1''), (''schema'', JStr ''Person''),
           (''properties'', JObj [(''name'', JList [JStr ''Jane''])])],
          [(''id'', JStr ''D1''), (''schema'', JStr ''Directorship''),
           (''properties'', JObj [(''director'', JList [JStr ''P1'']),
                                  (''organization'', JList [JStr ''C1''])])],
          [(''id'', JStr ''D2''), (''schema'', JStr ''Directorship''),
           (''properties'', JObj [(''director'', JList [JStr ''P7'']),
                                  (''organization'', JList [JStr ''C1''])])]], None)
        5000 \<lparr> nodes = [], rels = [] \<rparr>
     = Inr (\<lparr> nodes =
               [\<lparr> n_label = Company, n_ftm_id = JStr ''C1'', n_schema = JStr ''Company'',
                  n_name = JStr ''Acme'', n_datasets = JList [], n_modified_at = JNull \<rparr>,
                \<lparr> n_label = Person, n_ftm_id = JStr ''P1'', n_schema = JStr ''Person'',
                  n_name = JStr ''Jane'', n_datasets = JList [], n_modified_at = JNull \<rparr>],
             rels =
               [\<lparr> r_type = DIRECTORSHIP, r_src = 1, r_tgt = 0, r_ftm_id = JStr ''D1'',
                  r_schema = JStr ''Directorship'', r_datasets = JList [],
                  r_modified_at = JNull \<rparr>] \<rparr>,
            (1, 1), (2, 0))
   \<and> length (of_kind DIRECTORSHIP (rel_rows
        [[(''id'', JStr ''C1''), (''schema'', JStr ''Company''),
           (''properties'', JObj [(''name'', JList [JStr ''Acme''])])],
          [(''id'', JStr ''P1''), (''schema'', JStr ''Person''),
           (''properties'', JObj [(''name'', JList [JStr ''Jane''])])],
          [(''id'', JStr ''D1''), (''schema'', JStr ''Directorship''),
           (''properties'', JObj [(''director'', JList [JStr ''P1'']),
                                  (''organization'', JList [JStr ''C1''])])],
          [(''id'', JStr ''D2''), (''schema'', JStr ''Directorship''),
           (''properties'', JObj [(''director'', JList [JStr ''P7'']),
                                  (''organization'', JList [JStr ''C1''])])]])) = 2"
proof -
  let ?es = "[[(''id'', JStr ''C1''), (''schema'', JStr ''Company''),
           (''properties'', JObj [(''name'', JList [JStr ''Acme''])])],
          [(''id'', JStr ''P1''), (''schema'', JStr ''Person''),
           (''properties'', JObj [(''name'', JList [JStr ''Jane''])])],
          [(''id'', JStr ''D1''), (''schema'', JStr ''Directorship''),
           (''properties'', JObj [(''director'', JList [JStr ''P1'']),
                                  (''organization'', JList [JStr ''C1''])])],
          [(''id'', JStr ''D2''), (''schema'', JStr ''Directorship''),
           (''properties'', JObj [(''director'', JList [JStr ''P7'']),
                                  (''organization'', JList [JStr ''C1''])])]]"
  have h: "main (?es, None) 5000 \<lparr> nodes = [], rels = [] \<rparr>
     = Inr (\<lparr> nodes =
               [\<lparr> n_label = Company, n_ftm_id = JStr ''C1'', n_schema = JStr ''Company'',
                  n_name = JStr ''Acme'', n_datasets = JList [], n_modified_at = JNull \<rparr>,
                \<lparr> n_label = Person, n_ftm_id = JStr ''P1'', n_schema = JStr ''Person'',
                  n_name = JStr ''Jane'', n_datasets = JList [], n_modified_at = JNull \<rparr>],
             rels =
               [\<lparr> r_type = DIRECTORSHIP, r_src = 1, r_tgt = 0, r_ftm_id = JStr ''D1'',
                  r_schema = JStr ''Directorship'', r_datasets = JList [],
                  r_modified_at = JNull \<rparr>] \<rparr>,
            (1, 1), (2, 0))"
    by code_simp
  show ?thesis using counts_are_rows_submitted[OF h] h by simp
qed

section \<open>The state after a run\<close>

lemma fold_upd_last:
  assumes L: "merge_laws m a"
  shows "fold (upd m a) ops x
       = (case find (\<lambda>op. m op x) (rev ops) of None \<Rightarrow> x | Some op \<Rightarrow> a op x)"
proof (induction ops rule: rev_induct)
  case Nil
  then show ?case by simp
next
  case (snoc r ops)
  have m: "m r (fold (upd m a) ops x) = m r x" by (rule fold_upd_matches[OF L])
  show ?case
  proof (cases "m r x")
    case True
    then have "fold (upd m a) (ops @ [r]) x = a r (fold (upd m a) ops x)"
      using m by (simp add: upd_def)
    also have "\<dots> = a r x" by (rule assign_fold_upd[OF L])
    finally show ?thesis using True by simp
  next
    case False
    then have "fold (upd m a) (ops @ [r]) x = fold (upd m a) ops x"
      using m by (simp add: upd_def)
    then show ?thesis using False snoc.IH by simp
  qed
qed

lemma find_filter:
  assumes "\<And>x. P x \<Longrightarrow> Q x"
  shows "find P (filter Q xs) = find P xs"
  using assms by (induction xs) auto

lemma filter_kind: "filter (\<lambda>op. fst op = k) ops = map (Pair k) (of_kind k ops)"
  by (induction ops) (auto simp: of_kind_def)

lemma filter_kind_rev:
  "filter (\<lambda>op. fst op = k) (rev ops) = rev (map (Pair k) (of_kind k ops))"
proof -
  have "filter (\<lambda>op. fst op = k) (rev ops) = rev (filter (\<lambda>op. fst op = k) ops)"
    by (simp add: rev_filter)
  then show ?thesis by (simp only: filter_kind)
qed

lemma find_same_kind:
  assumes "of_kind k ops = of_kind k ops'" and "\<And>op. P op \<Longrightarrow> fst op = k"
  shows "find P (rev ops) = find P (rev ops')"
proof -
  have "find P (rev ops) = find P (filter (\<lambda>op. fst op = k) (rev ops))"
    using find_filter[of P "\<lambda>op. fst op = k" "rev ops"] assms(2) by simp
  also have "\<dots> = find P (filter (\<lambda>op. fst op = k) (rev ops'))"
    by (simp only: filter_kind_rev assms(1))
  also have "\<dots> = find P (rev ops')"
    using find_filter[of P "\<lambda>op. fst op = k" "rev ops'"] assms(2) by simp
  finally show ?thesis .
qed

lemma node_latest:
  assumes ids: "\<forall>op \<in> set ops. row_id (snd op) \<noteq> JNull"
    and k: "of_kind Company ops = of_kind Company rows" "of_kind Person ops = of_kind Person rows"
    and n: "n \<in> set (nodes (node_ops ops s))"
  shows "(case find (\<lambda>op. node_matches op n) (rev rows) of
            None \<Rightarrow> n
          | Some op \<Rightarrow> node_assign op n) = n"
proof -
  have "\<forall>op \<in> set ops. node_matches op (node_create op)"
    using ids node_matches_create by blast
  then have "\<forall>x \<in> set (fold (merge_set node_matches node_assign node_create) ops (nodes s)).
      fold (upd node_matches node_assign) ops x = x"
    by (rule fold_merge_set_settled[OF node_laws])
  then have "fold (upd node_matches node_assign) ops n = n"
    using n by (simp add: node_ops_nodes)
  then have a: "(case find (\<lambda>op. node_matches op n) (rev ops) of
            None \<Rightarrow> n | Some op \<Rightarrow> node_assign op n) = n"
    by (simp add: fold_upd_last[OF node_laws])
  have "find (\<lambda>op. node_matches op n) (rev ops) = find (\<lambda>op. node_matches op n) (rev rows)"
  proof (cases "n_label n")
    case Company
    show ?thesis
      by (rule find_same_kind[OF k(1)]) (simp add: node_matches_def Company)
  next
    case Person
    show ?thesis
      by (rule find_same_kind[OF k(2)]) (simp add: node_matches_def Person)
  qed
  then show ?thesis using a by simp
qed

lemma find_append:
  "find P (xs @ ys) = (case find P xs of Some x \<Rightarrow> Some x | None \<Rightarrow> find P ys)"
  by (induction xs) auto

lemma find_rel_binding:
  "find (\<lambda>q. rel_matches q r) (map (\<lambda>ab. (ty, row, ab)) bnds)
     = (if r_type r = ty \<and> prop_eq (r_ftm_id r) (rel_id row) \<and> (r_src r, r_tgt r) \<in> set bnds
        then Some (ty, row, r_src r, r_tgt r) else None)"
  by (induction bnds) (auto simp: rel_matches_def)

lemma find_rel_binds:
  "find (\<lambda>q. rel_matches q r) (rev (rel_binds ops ns))
     = map_option (\<lambda>op. (fst op, snd op, r_src r, r_tgt r))
         (find (rel_row_matches ns r) (rev ops))"
proof (induction ops rule: rev_induct)
  case Nil
  then show ?case by (simp add: rel_binds_def)
next
  case (snoc op ops)
  have b: "rev (rel_binds (ops @ [op]) ns)
      = map (\<lambda>ab. (fst op, snd op, ab)) (rev (rel_bindings (snd op) ns)) @ rev (rel_binds ops ns)"
    by (simp add: rel_binds_def rev_map)
  show ?case unfolding b find_append find_rel_binding
    using snoc.IH by (simp add: rel_row_matches_def)
qed

lemma rel_latest:
  assumes ids: "\<forall>op \<in> set ops. rel_id (snd op) \<noteq> JNull"
    and k: "of_kind DIRECTORSHIP ops = of_kind DIRECTORSHIP rows"
      "of_kind OWNERSHIP ops = of_kind OWNERSHIP rows"
    and r: "r \<in> set (rels (rel_ops ops s))"
  shows "(case find (rel_row_matches (nodes s) r) (rev rows) of
            None \<Rightarrow> r
          | Some op \<Rightarrow> rel_assign (fst op, snd op, r_src r, r_tgt r) r) = r"
proof -
  let ?bs = "rel_binds ops (nodes s)"
  have "\<forall>q \<in> set ?bs. rel_matches q (rel_create q)"
    using rel_binds_ids[OF ids] rel_matches_create by blast
  then have "\<forall>x \<in> set (fold (merge_set rel_matches rel_assign rel_create) ?bs (rels s)).
      fold (upd rel_matches rel_assign) ?bs x = x"
    by (rule fold_merge_set_settled[OF rel_laws])
  then have "fold (upd rel_matches rel_assign) ?bs r = r"
    using r by (simp add: rel_ops_rels)
  then have a: "(case find (\<lambda>q. rel_matches q r) (rev ?bs) of
            None \<Rightarrow> r | Some q \<Rightarrow> rel_assign q r) = r"
    by (simp add: fold_upd_last[OF rel_laws])
  have "find (rel_row_matches (nodes s) r) (rev ops) = find (rel_row_matches (nodes s) r) (rev rows)"
  proof (cases "r_type r")
    case DIRECTORSHIP
    show ?thesis
      by (rule find_same_kind[OF k(1)]) (simp add: rel_row_matches_def DIRECTORSHIP)
  next
    case OWNERSHIP
    show ?thesis
      by (rule find_same_kind[OF k(2)]) (simp add: rel_row_matches_def OWNERSHIP)
  qed
  then show ?thesis using a unfolding find_rel_binds
    by (auto split: option.splits)
qed

lemma length_filter_map_keep:
  "(\<And>x. K (f x) = K x) \<Longrightarrow> length (filter K (map f xs)) = length (filter K xs)"
  by (induction xs) auto

lemma merge_set_no_duplicate:
  assumes keep: "\<And>x. K (a r x) = K x"
    and new: "K (a r (c r)) \<Longrightarrow> \<forall>x. K x \<longrightarrow> m r x"
  shows "length (filter K (merge_set m a c r xs)) \<le> max 1 (length (filter K xs))"
proof (cases "\<exists>x \<in> set xs. m r x")
  case True
  have "\<And>x. K (if m r x then a r x else x) = K x" by (simp add: keep)
  then have "length (filter K (map (\<lambda>x. if m r x then a r x else x) xs)) = length (filter K xs)"
    by (rule length_filter_map_keep)
  then show ?thesis using True by (simp add: merge_set_def)
next
  case False
  show ?thesis
  proof (cases "K (a r (c r))")
    case True
    then have "\<forall>x \<in> set xs. \<not> K x" using new False by blast
    then have "filter K xs = []" by (simp add: filter_empty_conv)
    then show ?thesis using False True by (simp add: merge_set_def)
  next
    case False
    then show ?thesis using \<open>\<not> (\<exists>x \<in> set xs. m r x)\<close> by (simp add: merge_set_def)
  qed
qed

lemma fold_merge_set_no_duplicate:
  assumes keep: "\<And>r x. K (a r x) = K x"
    and new: "\<And>r. r \<in> set rs \<Longrightarrow> K (a r (c r)) \<Longrightarrow> \<forall>x. K x \<longrightarrow> m r x"
  shows "length (filter K (fold (merge_set m a c) rs xs)) \<le> max 1 (length (filter K xs))"
  using new
proof (induction rs arbitrary: xs)
  case Nil
  then show ?case by simp
next
  case (Cons r rs)
  have "length (filter K (fold (merge_set m a c) rs (merge_set m a c r xs)))
      \<le> max 1 (length (filter K (merge_set m a c r xs)))"
    using Cons.IH[of "merge_set m a c r xs"] Cons.prems by simp
  moreover have "length (filter K (merge_set m a c r xs)) \<le> max 1 (length (filter K xs))"
    using merge_set_no_duplicate[of K a r c m xs] keep Cons.prems[of r] by simp
  ultimately show ?case by simp
qed

lemma node_ops_no_duplicate:
  "length (filter (node_key l v) (nodes (node_ops ops s)))
     \<le> max 1 (length (filter (node_key l v) (nodes s)))"
proof -
  have "length (filter (node_key l v)
          (fold (merge_set node_matches node_assign node_create) ops (nodes s)))
      \<le> max 1 (length (filter (node_key l v) (nodes s)))"
    by (rule fold_merge_set_no_duplicate)
       (auto simp: node_key_def node_assign_def node_create_def node_matches_def prop_eq_def)
  then show ?thesis by (simp add: node_ops_nodes)
qed

lemma rel_ops_no_duplicate:
  "length (filter (rel_key ty a b v) (rels (rel_ops ops s)))
     \<le> max 1 (length (filter (rel_key ty a b v) (rels s)))"
proof -
  have "length (filter (rel_key ty a b v)
          (fold (merge_set rel_matches rel_assign rel_create) (rel_binds ops (nodes s)) (rels s)))
      \<le> max 1 (length (filter (rel_key ty a b v) (rels s)))"
    by (rule fold_merge_set_no_duplicate)
       (auto simp: rel_key_def rel_assign_def rel_create_def rel_matches_def prop_eq_def)
  then show ?thesis by (simp add: rel_ops_rels)
qed

text \<open>
  C1, as stated, fails in its account of the edge key: the two Directorship records
  below share the identifier D1 and name different directors, and the run leaves two
  DIRECTORSHIP edges with the identifier D1, the first still carrying the datasets of
  the first record. The edge upsert is keyed by the identifier together with the two
  end nodes.
\<close>

theorem same_edge_id_two_edges:
  "main ([[(''id'', JStr ''P1''), (''schema'', JStr ''Person'')],
          [(''id'', JStr ''P2''), (''schema'', JStr ''Person'')],
          [(''id'', JStr ''C1''), (''schema'', JStr ''Company'')],
          [(''id'', JStr ''D1''), (''schema'', JStr ''Directorship''),
           (''datasets'', JList [JStr ''a'']),
           (''properties'', JObj [(''director'', JList [JStr ''P1'']),
                                  (''organization'', JList [JStr ''C1''])])],
          [(''id'', JStr ''D1''), (''schema'', JStr ''Directorship''),
           (''datasets'', JList [JStr ''b'']),
           (''properties'', JObj [(''director'', JList [JStr ''P2'']),
                                  (''organization'', JList [JStr ''C1''])])]], None)
        5000 \<lparr> nodes = [], rels = [] \<rparr>
     = Inr (\<lparr> nodes =
               [\<lparr> n_label = Company, n_ftm_id = JStr ''C1'', n_schema = JStr ''Company'',
                  n_name = JNull, n_datasets = JList [], n_modified_at = JNull \<rparr>,
                \<lparr> n_label = Person, n_ftm_id = JStr ''P1'', n_schema = JStr ''Person'',
                  n_name = JNull, n_datasets = JList [], n_modified_at = JNull \<rparr>,
                \<lparr> n_label = Person, n_ftm_id = JStr ''P2'', n_schema = JStr ''Person'',
                  n_name = JNull, n_datasets = JList [], n_modified_at = JNull \<rparr>],
             rels =
               [\<lparr> r_type = DIRECTORSHIP, r_src = 1, r_tgt = 0, r_ftm_id = JStr ''D1'',
                  r_schema = JStr ''Directorship'', r_datasets = JList [JStr ''a''],
                  r_modified_at = JNull \<rparr>,
                \<lparr> r_type = DIRECTORSHIP, r_src = 2, r_tgt = 0, r_ftm_id = JStr ''D1'',
                  r_schema = JStr ''Directorship'', r_datasets = JList [JStr ''b''],
                  r_modified_at = JNull \<rparr>] \<rparr>,
            (1, 2), (2, 0))"
  by code_simp

text \<open>
  C1, amended. When a full run (node pass, then relationship pass) over an input
  completes, a second run over the same input from the store it left completes with
  the same counts and leaves that store as it is: no node or edge is added and no
  attribute changes. After the run every node carries the schema, name, datasets and
  modified timestamp of the last input row with its label and identifier, and every
  edge the schema, datasets and modified timestamp of the last input row with its
  type, identifier and bound end nodes. For every node key (label, identifier) and
  every edge key (type, source node, target node, identifier) the run adds at most one
  element, and none where the store already has one.
\<close>

theorem ingest_twice:
  assumes "main (es, stop) bs s = Inr (s2, counts)"
  shows "main (es, stop) bs s2 = Inr (s2, counts)
    \<and> (\<forall>n \<in> set (nodes s2).
         case find (\<lambda>op. node_matches op n) (rev (node_rows es)) of
           None \<Rightarrow> True
         | Some op \<Rightarrow>
             n_schema n = row_schema (snd op) \<and> n_name n = row_name (snd op)
             \<and> n_datasets n = row_datasets (snd op)
             \<and> n_modified_at n = row_modified_at (snd op))
    \<and> (\<forall>r \<in> set (rels s2).
         case find (rel_row_matches (nodes s2) r) (rev (rel_rows es)) of
           None \<Rightarrow> True
         | Some op \<Rightarrow>
             r_schema r = rel_schema (snd op) \<and> r_datasets r = rel_datasets (snd op)
             \<and> r_modified_at r = rel_modified_at (snd op))
    \<and> length (filter (node_key l v) (nodes s2)) \<le> max 1 (length (filter (node_key l v) (nodes s)))
    \<and> length (filter (rel_key ty a b v) (rels s2))
         \<le> max 1 (length (filter (rel_key ty a b v) (rels s)))"
proof -
  obtain c p d ow where counts: "counts = ((c, p), (d, ow))"
    by (cases counts) auto
  have acc: "main_accepted (es, stop) bs s = Inr (s2, counts)"
    using main_Inr[OF assms] by simp
  obtain s1 where n: "import_nodes_accepted (es, stop) bs s = Inr (s1, c, p)"
    and r: "import_relationships_accepted (es, stop) bs s1 = Inr (s2, d, ow)"
    using acc counts by (auto simp: main_accepted_def split: sum.splits)
  from import_nodes_run[OF n] obtain ops where
    nrun: "\<And>t. import_nodes_accepted (es, stop) bs t = Inr (node_ops ops t, c, p)"
    and nk: "of_kind Company ops = of_kind Company (node_rows es)"
        "of_kind Person ops = of_kind Person (node_rows es)"
    by blast
  from import_relationships_run[OF r] obtain rops where
    rrun: "\<And>t. import_relationships_accepted (es, stop) bs t = Inr (rel_ops rops t, d, ow)"
    and rk: "of_kind DIRECTORSHIP rops = of_kind DIRECTORSHIP (rel_rows es)"
        "of_kind OWNERSHIP rops = of_kind OWNERSHIP (rel_rows es)"
    by blast
  have s1: "s1 = node_ops ops s" using n nrun[of s] by simp
  have s2: "s2 = rel_ops rops s1" using r rrun[of s1] by simp
  have "set ops = set (node_rows es)" by (rule same_kinds_same_set[OF nk])
  then have ids: "\<forall>op \<in> set ops. row_id (snd op) \<noteq> JNull"
    using node_rows_truthy truthy_not_null by blast
  have "set rops = set (rel_rows es)" by (rule same_types_same_set[OF rk])
  then have rids: "\<forall>op \<in> set rops. rel_id (snd op) \<noteq> JNull"
    using rel_rows_truthy truthy_not_null by blast
  have ns2: "nodes s2 = nodes s1" unfolding s2 by (rule nodes_rel_ops)
  have rs1: "rels s1 = rels s" unfolding s1 by (rule rels_node_ops)
  have 1: "main (es, stop) bs s2 = Inr (s2, counts)"
    by (rule main_idempotent_run[OF assms])
  have 2: "\<forall>n \<in> set (nodes s2).
         case find (\<lambda>op. node_matches op n) (rev (node_rows es)) of
           None \<Rightarrow> True
         | Some op \<Rightarrow>
             n_schema n = row_schema (snd op) \<and> n_name n = row_name (snd op)
             \<and> n_datasets n = row_datasets (snd op)
             \<and> n_modified_at n = row_modified_at (snd op)"
  proof
    fix n assume "n \<in> set (nodes s2)"
    then have "n \<in> set (nodes (node_ops ops s))" using ns2 s1 by simp
    from node_latest[OF ids nk this]
    show "case find (\<lambda>op. node_matches op n) (rev (node_rows es)) of
           None \<Rightarrow> True
         | Some op \<Rightarrow>
             n_schema n = row_schema (snd op) \<and> n_name n = row_name (snd op)
             \<and> n_datasets n = row_datasets (snd op)
             \<and> n_modified_at n = row_modified_at (snd op)"
      by (cases n) (auto simp: node_assign_def split: option.splits)
  qed
  have 3: "\<forall>r \<in> set (rels s2).
         case find (rel_row_matches (nodes s2) r) (rev (rel_rows es)) of
           None \<Rightarrow> True
         | Some op \<Rightarrow>
             r_schema r = rel_schema (snd op) \<and> r_datasets r = rel_datasets (snd op)
             \<and> r_modified_at r = rel_modified_at (snd op)"
  proof
    fix r assume "r \<in> set (rels s2)"
    then have "r \<in> set (rels (rel_ops rops s1))" using s2 by simp
    from rel_latest[OF rids rk this]
    show "case find (rel_row_matches (nodes s2) r) (rev (rel_rows es)) of
           None \<Rightarrow> True
         | Some op \<Rightarrow>
             r_schema r = rel_schema (snd op) \<and> r_datasets r = rel_datasets (snd op)
             \<and> r_modified_at r = rel_modified_at (snd op)"
      unfolding ns2 by (cases r) (auto simp: rel_assign_def split: option.splits)
  qed
  have 4: "length (filter (node_key l v) (nodes s2)) \<le> max 1 (length (filter (node_key l v) (nodes s)))"
    unfolding ns2 s1 by (rule node_ops_no_duplicate)
  have 5: "length (filter (rel_key ty a b v) (rels s2))
         \<le> max 1 (length (filter (rel_key ty a b v) (rels s)))"
    using rel_ops_no_duplicate[of ty a b v rops s1] unfolding s2 rs1 .
  from 1 2 3 4 5 show ?thesis by blast
qed


theorem ingest_twice_witness:
  "main ([[(''id'', JStr ''C1''), (''schema'', JStr ''Company''),
           (''properties'', JObj [(''name'', JList [JStr ''Acme''])])],
          [(''id'', JStr ''C1''), (''schema'', JStr ''Company''),
           (''properties'', JObj [(''name'', JList [JStr ''Apex''])])],
          [(''id'', JStr ''P1''), (''schema'', JStr ''Person''),
           (''properties'', JObj [(''name'', JList [JStr ''Jane''])])],
          [(''id'', JStr ''D1''), (''schema'', JStr ''Directorship''),
           (''properties'', JObj [(''director'', JList [JStr ''P1'']),
                                  (''organization'', JList [JStr ''C1''])])]], None)
        5000 \<lparr> nodes = [], rels = [] \<rparr>
     = Inr (\<lparr> nodes =
               [\<lparr> n_label = Company, n_ftm_id = JStr ''C1'', n_schema = JStr ''Company'',
                  n_name = JStr ''Apex'', n_datasets = JList [], n_modified_at = JNull \<rparr>,
                \<lparr> n_label = Person, n_ftm_id = JStr ''P1'', n_schema = JStr ''Person'',
                  n_name = JStr ''Jane'', n_datasets = JList [], n_modified_at = JNull \<rparr>],
             rels =
               [\<lparr> r_type = DIRECTORSHIP, r_src = 1, r_tgt = 0, r_ftm_id = JStr ''D1'',
                  r_schema = JStr ''Directorship'', r_datasets = JList [],
                  r_modified_at = JNull \<rparr>] \<rparr>,
            (2, 1), (1, 0))
   \<and> main ([[(''id'', JStr ''C1''), (''schema'', JStr ''Company''),
           (''properties'', JObj [(''name'', JList [JStr ''Acme''])])],
          [(''id'', JStr ''C1''), (''schema'', JStr ''Company''),
           (''properties'', JObj [(''name'', JList [JStr ''Apex''])])],
          [(''id'', JStr ''P1''), (''schema'', JStr ''Person''),
           (''properties'', JObj [(''name'', JList [JStr ''Jane''])])],
          [(''id'', JStr ''D1''), (''schema'', JStr ''Directorship''),
           (''properties'', JObj [(''director'', JList [JStr ''P1'']),
                                  (''organization'', JList [JStr ''C1''])])]], None)
        5000
        \<lparr> nodes =
               [\<lparr> n_label = Company, n_ftm_id = JStr ''C1'', n_schema = JStr ''Company'',
                  n_name = JStr ''Apex'', n_datasets = JList [], n_modified_at = JNull \<rparr>,
                \<lparr> n_label = Person, n_ftm_id = JStr ''P1'', n_schema = JStr ''Person'',
                  n_name = JStr ''Jane'', n_datasets = JList [], n_modified_at = JNull \<rparr>],
             rels =
               [\<lparr> r_type = DIRECTORSHIP, r_src = 1, r_tgt = 0, r_ftm_id = JStr ''D1'',
                  r_schema = JStr ''Directorship'', r_datasets = JList [],
                  r_modified_at = JNull \<rparr>] \<rparr>
     = Inr (\<lparr> nodes =
               [\<lparr> n_label = Company, n_ftm_id = JStr ''C1'', n_schema = JStr ''Company'',
                  n_name = JStr ''Apex'', n_datasets = JList [], n_modified_at = JNull \<rparr>,
                \<lparr> n_label = Person, n_ftm_id = JStr ''P1'', n_schema = JStr ''Person'',
                  n_name = JStr ''Jane'', n_datasets = JList [], n_modified_at = JNull \<rparr>],
             rels =
               [\<lparr> r_type = DIRECTORSHIP, r_src = 1, r_tgt = 0, r_ftm_id = JStr ''D1'',
                  r_schema = JStr ''Directorship'', r_datasets = JList [],
                  r_modified_at = JNull \<rparr>] \<rparr>,
            (2, 1), (1, 0))"
proof -
  let ?es = "[[(''id'', JStr ''C1''), (''schema'', JStr ''Company''),
           (''properties'', JObj [(''name'', JList [JStr ''Acme''])])],
          [(''id'', JStr ''C1''), (''schema'', JStr ''Company''),
           (''properties'', JObj [(''name'', JList [JStr ''Apex''])])],
          [(''id'', JStr ''P1''), (''schema'', JStr ''Person''),
           (''properties'', JObj [(''name'', JList [JStr ''Jane''])])],
          [(''id'', JStr ''D1''), (''schema'', JStr ''Directorship''),
           (''properties'', JObj [(''director'', JList [JStr ''P1'']),
                                  (''organization'', JList [JStr ''C1''])])]]"
  let ?s2 = "\<lparr> nodes =
               [\<lparr> n_label = Company, n_ftm_id = JStr ''C1'', n_schema = JStr ''Company'',
                  n_name = JStr ''Apex'', n_datasets = JList [], n_modified_at = JNull \<rparr>,
                \<lparr> n_label = Person, n_ftm_id = JStr ''P1'', n_schema = JStr ''Person'',
                  n_name = JStr ''Jane'', n_datasets = JList [], n_modified_at = JNull \<rparr>],
             rels =
               [\<lparr> r_type = DIRECTORSHIP, r_src = 1, r_tgt = 0, r_ftm_id = JStr ''D1'',
                  r_schema = JStr ''Directorship'', r_datasets = JList [],
                  r_modified_at = JNull \<rparr>] \<rparr>"
  have h: "main (?es, None) 5000 \<lparr> nodes = [], rels = [] \<rparr> = Inr (?s2, (2, 1), (1, 0))"
    by code_simp
  have again: "main (?es, None) 5000 ?s2 = Inr (?s2, (2, 1), (1, 0))"
    using ingest_twice[OF h] by blast
  from h again show ?thesis by (rule conjI)
qed

section \<open>Permuting the input\<close>

lemma mset_merge_set: "mset (merge_set m a c r xs) = merge_mset m a c r (mset xs)"
  by (simp add: merge_set_upd merge_mset_def)

lemma mset_fold_merge_set:
  "mset (fold (merge_set m a c) rs xs) = fold (merge_mset m a c) rs (mset xs)"
  by (induction rs arbitrary: xs) (simp_all add: mset_merge_set)

lemma upd_apart_commute:
  assumes L: "merge_laws m a" and ap: "apart m r1 r2"
  shows "upd m a r1 (upd m a r2 x) = upd m a r2 (upd m a r1 x)"
  using ap by (auto simp: upd_def apart_def merge_laws_match[OF L])

lemma merge_mset_swap:
  assumes L: "merge_laws m a" and c1: "m r1 (c r1)" and c2: "m r2 (c r2)" and ap: "apart m r1 r2"
  shows "merge_mset m a c r1 (merge_mset m a c r2 M) = merge_mset m a c r2 (merge_mset m a c r1 M)"
proof -
  have keep: "\<And>r q x. m r (upd m a q x) = m r x"
    by (simp add: upd_def merge_laws_match[OF L])
  have ex: "\<And>r q. (\<exists>x \<in># image_mset (upd m a q) M. m r x) = (\<exists>x \<in># M. m r x)"
    by (auto simp: keep)
  have n12: "\<not> m r1 (a r2 (c r2))" using ap c2 by (auto simp: apart_def merge_laws_match[OF L])
  have n21: "\<not> m r2 (a r1 (c r1))" using ap c1 by (auto simp: apart_def merge_laws_match[OF L])
  have comm: "image_mset (upd m a r1) (image_mset (upd m a r2) M)
      = image_mset (upd m a r2) (image_mset (upd m a r1) M)"
    by (simp add: multiset.map_comp comp_def upd_apart_commute[OF L ap])
  show ?thesis
  proof (cases "\<exists>x \<in># M. m r1 x")
    case True
    note e1 = True
    show ?thesis
    proof (cases "\<exists>x \<in># M. m r2 x")
      case True
      then show ?thesis using e1 comm by (simp add: merge_mset_def keep)
    next
      case False
      then show ?thesis using e1 n12 by (simp add: merge_mset_def keep) (simp add: upd_def)
    qed
  next
    case False
    note e1 = False
    show ?thesis
    proof (cases "\<exists>x \<in># M. m r2 x")
      case True
      then show ?thesis using e1 n21 by (simp add: merge_mset_def keep) (simp add: upd_def)
    next
      case False
      then show ?thesis using e1 n12 n21 by (simp add: merge_mset_def)
    qed
  qed
qed

lemma fold_merge_mset_move:
  assumes L: "merge_laws m a" and cr: "m r (c r)"
    and pre: "\<forall>q \<in> set pre. m q (c q) \<and> apart m q r"
  shows "fold (merge_mset m a c) (pre @ [r]) M = fold (merge_mset m a c) (r # pre) M"
  using pre
proof (induction pre arbitrary: M)
  case Nil
  then show ?case by simp
next
  case (Cons q pre)
  have "fold (merge_mset m a c) ((q # pre) @ [r]) M
      = fold (merge_mset m a c) (pre @ [r]) (merge_mset m a c q M)" by simp
  also have "\<dots> = fold (merge_mset m a c) (r # pre) (merge_mset m a c q M)"
    using Cons by simp
  also have "\<dots> = fold (merge_mset m a c) pre (merge_mset m a c r (merge_mset m a c q M))"
    by simp
  also have "merge_mset m a c r (merge_mset m a c q M) = merge_mset m a c q (merge_mset m a c r M)"
    using merge_mset_swap[OF L, of q c r M] Cons.prems cr by simp
  finally show ?case by simp
qed

lemma same_classes_split:
  assumes "\<forall>\<kappa>. filter (\<lambda>q. k q = \<kappa>) (r # rest) = filter (\<lambda>q. k q = \<kappa>) rs'"
  shows "\<exists>pre post. rs' = pre @ r # post \<and> (\<forall>q \<in> set pre. k q \<noteq> k r)
      \<and> (\<forall>\<kappa>. filter (\<lambda>q. k q = \<kappa>) rest = filter (\<lambda>q. k q = \<kappa>) (pre @ post))"
proof -
  have "filter (\<lambda>q. k q = k r) rs' = r # filter (\<lambda>q. k q = k r) rest"
    using assms[rule_format, of "k r"] by simp
  then obtain pre post where rs': "rs' = pre @ r # post"
    and pre: "\<forall>q \<in> set pre. k q \<noteq> k r"
    and post: "filter (\<lambda>q. k q = k r) rest = filter (\<lambda>q. k q = k r) post"
    by (auto simp: filter_eq_Cons_iff)
  have "\<forall>\<kappa>. filter (\<lambda>q. k q = \<kappa>) rest = filter (\<lambda>q. k q = \<kappa>) (pre @ post)"
  proof
    fix \<kappa>
    show "filter (\<lambda>q. k q = \<kappa>) rest = filter (\<lambda>q. k q = \<kappa>) (pre @ post)"
    proof (cases "\<kappa> = k r")
      case True
      have "filter (\<lambda>q. k q = k r) pre = []" using pre by (simp add: filter_empty_conv)
      then show ?thesis using post True by simp
    next
      case False
      then show ?thesis using assms[rule_format, of \<kappa>] rs' by auto
    qed
  qed
  then show ?thesis using rs' pre by blast
qed

lemma fold_merge_mset_classes:
  assumes L: "merge_laws m a"
    and ap: "\<And>r1 r2. k r1 \<noteq> k r2 \<Longrightarrow> apart m r1 r2"
  shows "\<forall>r \<in> set rs. m r (c r) \<Longrightarrow>
    \<forall>\<kappa>. filter (\<lambda>q. k q = \<kappa>) rs = filter (\<lambda>q. k q = \<kappa>) rs' \<Longrightarrow>
    fold (merge_mset m a c) rs M = fold (merge_mset m a c) rs' M"
proof (induction rs arbitrary: rs' M)
  case Nil
  have "rs' = []"
  proof (cases rs')
    case Nil then show ?thesis .
  next
    case (Cons q qs)
    then show ?thesis using Nil.prems(2)[rule_format, of "k q"] by simp
  qed
  then show ?case by simp
next
  case (Cons r rest)
  from same_classes_split[OF Cons.prems(2)] obtain pre post where
    rs': "rs' = pre @ r # post" and pre: "\<forall>q \<in> set pre. k q \<noteq> k r"
    and cl: "\<forall>\<kappa>. filter (\<lambda>q. k q = \<kappa>) rest = filter (\<lambda>q. k q = \<kappa>) (pre @ post)"
    by blast
  have sets: "set rest = set (pre @ post)"
  proof (rule set_eqI)
    fix q
    have "q \<in> set rest \<longleftrightarrow> q \<in> set (filter (\<lambda>x. k x = k q) rest)" by simp
    also have "\<dots> \<longleftrightarrow> q \<in> set (filter (\<lambda>x. k x = k q) (pre @ post))"
      using cl by simp
    also have "\<dots> \<longleftrightarrow> q \<in> set (pre @ post)" by simp
    finally show "q \<in> set rest \<longleftrightarrow> q \<in> set (pre @ post)" .
  qed
  have cpre: "\<forall>q \<in> set pre. m q (c q) \<and> apart m q r"
    using Cons.prems(1) sets pre ap by auto
  have cr: "m r (c r)" using Cons.prems(1) by simp
  have "fold (merge_mset m a c) rs' M
      = fold (merge_mset m a c) post (fold (merge_mset m a c) (pre @ [r]) M)"
    by (simp add: rs')
  also have "\<dots> = fold (merge_mset m a c) post (fold (merge_mset m a c) (r # pre) M)"
    by (simp only: fold_merge_mset_move[OF L cr cpre])
  also have "\<dots> = fold (merge_mset m a c) (pre @ post) (merge_mset m a c r M)"
    by simp
  also have "\<dots> = fold (merge_mset m a c) rest (merge_mset m a c r M)"
    using Cons.IH[of "pre @ post" "merge_mset m a c r M"] Cons.prems(1) cl by simp
  finally show ?case by simp
qed

lemma import_nodes_loop_ok:
  "(\<exists>res. import_nodes_loop_accepted bs es stop s cb pb c p = Inr res)
     = ((\<forall>e \<in> set es. \<exists>x. import_nodes_row e = Inr x) \<and> stop = None)"
proof (induction es arbitrary: s cb pb c p)
  case Nil
  then show ?case by (cases stop) simp_all
next
  case (Cons e es)
  show ?case
  proof (cases "import_nodes_row e")
    case (Inl err)
    then show ?thesis by simp
  next
    case (Inr x)
    obtain pre cb2 pb2 c2 p2 where
      step: "\<And>t es. import_nodes_loop_accepted bs (e # es) stop t cb pb c p
            = import_nodes_loop_accepted bs es stop (node_ops pre t) cb2 pb2 c2 p2"
      using import_nodes_loop_step[OF Inr, of bs stop cb pb c p] by blast
    show ?thesis unfolding step Cons.IH using Inr by simp
  qed
qed

lemma import_relationships_loop_ok:
  "(\<exists>res. import_relationships_loop_accepted bs es stop s db ob c p = Inr res)
     = ((\<forall>e \<in> set es. \<exists>x. import_relationships_row e = Inr x) \<and> stop = None)"
proof (induction es arbitrary: s db ob c p)
  case Nil
  then show ?case by (cases stop) simp_all
next
  case (Cons e es)
  show ?case
  proof (cases "import_relationships_row e")
    case (Inl err)
    then show ?thesis by simp
  next
    case (Inr x)
    obtain pre db2 ob2 c2 p2 where
      step: "\<And>t es. import_relationships_loop_accepted bs (e # es) stop t db ob c p
            = import_relationships_loop_accepted bs es stop (rel_ops pre t) db2 ob2 c2 p2"
      using import_relationships_loop_step[OF Inr, of bs stop db ob c p] by blast
    show ?thesis unfolding step Cons.IH using Inr by simp
  qed
qed

lemma import_nodes_ok:
  "(\<exists>res. import_nodes_accepted (es, stop) bs s = Inr res)
     = ((\<forall>e \<in> set es. \<exists>x. import_nodes_row e = Inr x) \<and> stop = None)"
proof -
  have "(\<exists>res. import_nodes_accepted (es, stop) bs s = Inr res)
      = (\<exists>res. import_nodes_loop_accepted bs es stop s [] [] 0 0 = Inr res)"
    by (auto simp: import_nodes_accepted_def flush_nodes_ops split: sum.splits)
  then show ?thesis by (simp only: import_nodes_loop_ok)
qed

lemma import_relationships_ok:
  "(\<exists>res. import_relationships_accepted (es, stop) bs s = Inr res)
     = ((\<forall>e \<in> set es. \<exists>x. import_relationships_row e = Inr x) \<and> stop = None)"
proof -
  have "(\<exists>res. import_relationships_accepted (es, stop) bs s = Inr res)
      = (\<exists>res. import_relationships_loop_accepted bs es stop s [] [] 0 0 = Inr res)"
    by (auto simp: import_relationships_accepted_def flush_rels_ops split: sum.splits)
  then show ?thesis by (simp only: import_relationships_loop_ok)
qed

lemma same_classes_same_set:
  assumes "\<forall>\<kappa>. filter (\<lambda>q. k q = \<kappa>) xs = filter (\<lambda>q. k q = \<kappa>) ys"
  shows "set xs = set ys"
proof (rule set_eqI)
  fix q
  have "q \<in> set xs \<longleftrightarrow> q \<in> set (filter (\<lambda>x. k x = k q) xs)" by simp
  also have "\<dots> \<longleftrightarrow> q \<in> set (filter (\<lambda>x. k x = k q) ys)" using assms by simp
  also have "\<dots> \<longleftrightarrow> q \<in> set ys" by simp
  finally show "q \<in> set xs \<longleftrightarrow> q \<in> set ys" .
qed

lemma filter_concat_map_if:
  assumes "\<And>e. filter P (f e) = (if Q e then f e else [])"
  shows "filter P (concat (map f es)) = concat (map f (filter Q es))"
  by (induction es) (simp_all add: assms)

lemma import_nodes_row_key:
  assumes "import_nodes_row e = Inr (Some op)"
  shows "record_key e = (label_schema (fst op), row_id (snd op))"
proof (cases "to_node_row e")
  case (Inl err)
  then show ?thesis using assms by (simp add: import_nodes_row_def Let_def split: if_splits)
next
  case (Inr row)
  have "row_id row = dict_get e ''id''"
    using Inr by (auto simp: to_node_row_def split: sum.splits)
  then show ?thesis using assms Inr
    by (auto simp: import_nodes_row_def Let_def record_key_def label_schema_def split: if_splits)
qed

lemma label_schema_inj: "(label_schema l = label_schema l') = (l = l')"
  by (cases l; cases l') (simp_all add: label_schema_def)

lemma node_rows_class:
  "filter (\<lambda>op. node_op_key op = (l, v)) (node_rows es)
     = node_rows (filter (\<lambda>e. record_key e = (label_schema l, v)) es)"
  unfolding node_rows_def
proof (rule filter_concat_map_if)
  fix e
  show "filter (\<lambda>op. node_op_key op = (l, v))
          (case import_nodes_row e of Inr (Some lr) \<Rightarrow> [lr] | _ \<Rightarrow> [])
      = (if record_key e = (label_schema l, v)
         then (case import_nodes_row e of Inr (Some lr) \<Rightarrow> [lr] | _ \<Rightarrow> []) else [])"
  proof (cases "import_nodes_row e")
    case (Inl err)
    then show ?thesis by simp
  next
    case (Inr x)
    show ?thesis
    proof (cases x)
      case None
      then show ?thesis using Inr by simp
    next
      case (Some op)
      have "record_key e = (label_schema (fst op), row_id (snd op))"
        using import_nodes_row_key Inr Some by simp
      then show ?thesis using Inr Some
        by (auto simp: node_op_key_def label_schema_inj)
    qed
  qed
qed

lemma filter_kind_and:
  "filter (\<lambda>op. fst op = k \<and> P (snd op)) ops = map (Pair k) (filter P (of_kind k ops))"
  by (induction ops) (auto simp: of_kind_def)

lemma node_class_by_kind:
  "filter (\<lambda>op. node_op_key op = (l, v)) ops
     = map (Pair l) (filter (\<lambda>row. row_id row = v) (of_kind l ops))"
  using filter_kind_and[of l "\<lambda>row. row_id row = v" ops]
  by (simp add: node_op_key_def prod_eq_iff)

lemma node_classes_permuted:
  assumes rec: "\<forall>\<kappa>. filter (\<lambda>e. record_key e = \<kappa>) es = filter (\<lambda>e. record_key e = \<kappa>) es'"
    and k: "of_kind Company ops = of_kind Company (node_rows es)"
        "of_kind Person ops = of_kind Person (node_rows es)"
    and k': "of_kind Company ops' = of_kind Company (node_rows es')"
        "of_kind Person ops' = of_kind Person (node_rows es')"
  shows "\<forall>\<kappa>. filter (\<lambda>op. node_op_key op = \<kappa>) ops = filter (\<lambda>op. node_op_key op = \<kappa>) ops'"
proof
  fix \<kappa> :: "label \<times> json"
  obtain l v where kv: "\<kappa> = (l, v)" by (cases \<kappa>)
  have a: "of_kind l ops = of_kind l (node_rows es)" using k by (cases l) simp_all
  have a': "of_kind l ops' = of_kind l (node_rows es')" using k' by (cases l) simp_all
  have "filter (\<lambda>op. node_op_key op = (l, v)) ops
      = filter (\<lambda>op. node_op_key op = (l, v)) (node_rows es)"
    by (simp only: node_class_by_kind a)
  also have "\<dots> = filter (\<lambda>op. node_op_key op = (l, v)) (node_rows es')"
    by (simp only: node_rows_class rec[rule_format])
  also have "\<dots> = filter (\<lambda>op. node_op_key op = (l, v)) ops'"
    by (simp only: node_class_by_kind a')
  finally show "filter (\<lambda>op. node_op_key op = \<kappa>) ops = filter (\<lambda>op. node_op_key op = \<kappa>) ops'"
    using kv by simp
qed

lemma node_apart: "node_op_key r1 \<noteq> node_op_key r2 \<Longrightarrow> apart node_matches r1 r2"
  by (auto simp: apart_def node_matches_def node_op_key_def prop_eq_def prod_eq_iff)

lemma node_ops_permuted:
  assumes ids: "\<forall>op \<in> set ops. row_id (snd op) \<noteq> JNull"
    and cl: "\<forall>\<kappa>. filter (\<lambda>op. node_op_key op = \<kappa>) ops = filter (\<lambda>op. node_op_key op = \<kappa>) ops'"
  shows "mset (nodes (node_ops ops s)) = mset (nodes (node_ops ops' s))"
proof -
  have c: "\<forall>op \<in> set ops. node_matches op (node_create op)"
    using ids node_matches_create by blast
  have "fold (merge_mset node_matches node_assign node_create) ops (mset (nodes s))
      = fold (merge_mset node_matches node_assign node_create) ops' (mset (nodes s))"
    using fold_merge_mset_classes[OF node_laws, of node_op_key ops node_create ops' "mset (nodes s)"]
      node_apart c cl by blast
  then show ?thesis by (simp add: node_ops_nodes mset_fold_merge_set)
qed

lemma nth_filter_index:
  "map (nth ns) (filter (\<lambda>j. K (ns ! j)) [0..<length ns]) = filter K ns"
proof (induction ns rule: rev_induct)
  case Nil
  then show ?case by simp
next
  case (snoc n ns)
  have idx: "filter (\<lambda>j. K ((ns @ [n]) ! j)) [0..<length ns] = filter (\<lambda>j. K (ns ! j)) [0..<length ns]"
    by (rule filter_cong) (simp_all add: nth_append)
  have pick: "map (nth (ns @ [n])) (filter (\<lambda>j. K (ns ! j)) [0..<length ns])
      = map (nth ns) (filter (\<lambda>j. K (ns ! j)) [0..<length ns])"
    by (rule map_cong) (simp_all add: nth_append)
  show ?case using snoc.IH by (simp add: idx pick)
qed

lemma optional_match_nodes:
  "map (map_option (nth ns)) (optional_match l v ns) = opt_nodes l v ns"
proof -
  let ?I = "filter (\<lambda>i. n_label (ns ! i) = l \<and> prop_eq (n_ftm_id (ns ! i)) v) [0..<length ns]"
  have m: "map (nth ns) ?I = filter (node_key l v) ns"
    using nth_filter_index[of ns "node_key l v"] by (simp add: node_key_def)
  show ?thesis
  proof (cases ?I)
    case Nil
    then have "filter (node_key l v) ns = []" using m by simp
    then show ?thesis using Nil by (simp add: optional_match_def opt_nodes_def)
  next
    case (Cons i rest)
    then have o: "optional_match l v ns = map Some ?I" by (simp add: optional_match_def)
    have "filter (node_key l v) ns \<noteq> []" using m Cons by (metis list.simps(3) map_is_Nil_conv)
    then have "opt_nodes l v ns = map Some (filter (node_key l v) ns)"
      by (simp add: opt_nodes_def split: list.splits)
    moreover have "map (map_option (nth ns)) (map Some ?I) = map Some (map (nth ns) ?I)"
      by (simp add: comp_def)
    ultimately show ?thesis unfolding o by (simp only: m)
  qed
qed

lemma endpoint_nodes: "map (map_option (nth ns)) (endpoint v ns) = ep_nodes v ns"
proof -
  have c: "\<And>p c. map_option (nth ns) (coalesce p c)
      = (case map_option (nth ns) p of Some x \<Rightarrow> Some x | None \<Rightarrow> map_option (nth ns) c)"
    by (simp add: coalesce_def split: option.splits)
  have "map (map_option (nth ns)) (endpoint v ns)
      = concat (map (\<lambda>p. map (\<lambda>c. case p of Some x \<Rightarrow> Some x | None \<Rightarrow> c)
            (map (map_option (nth ns)) (optional_match Company v ns)))
          (map (map_option (nth ns)) (optional_match Person v ns)))"
    by (simp add: endpoint_def map_concat comp_def c)
  then show ?thesis by (simp only: optional_match_nodes ep_nodes_def)
qed

lemma bindings_map_inner:
  "map (\<lambda>ab. (f (fst ab), f (snd ab)))
       (concat (map (\<lambda>t. (case (s, t) of (Some a, Some b) \<Rightarrow> [(a, b)] | _ \<Rightarrow> [])) ts))
     = concat (map (\<lambda>t. (case (map_option f s, t) of (Some a, Some b) \<Rightarrow> [(a, b)] | _ \<Rightarrow> []))
                (map (map_option f) ts))"
  by (induction ts) (auto split: option.splits)

lemma bindings_map:
  "map (\<lambda>ab. (f (fst ab), f (snd ab)))
       (concat (map (\<lambda>s. concat (map (\<lambda>t.
          (case (s, t) of (Some a, Some b) \<Rightarrow> [(a, b)] | _ \<Rightarrow> [])) ts)) ss))
     = concat (map (\<lambda>s. concat (map (\<lambda>t.
          (case (s, t) of (Some a, Some b) \<Rightarrow> [(a, b)] | _ \<Rightarrow> [])) (map (map_option f) ts)))
          (map (map_option f) ss))"
proof (induction ss)
  case Nil
  then show ?case by simp
next
  case (Cons s ss)
  show ?case using Cons.IH bindings_map_inner[of f s ts] by simp
qed

lemma rel_bindings_nodes:
  "map (\<lambda>ab. (ns ! fst ab, ns ! snd ab)) (rel_bindings row ns) = node_bindings row ns"
  unfolding rel_bindings_def node_bindings_def bindings_map endpoint_nodes ..

lemma node_bindings_cong:
  assumes "\<And>l v. filter (node_key l v) ns = filter (node_key l v) ns'"
  shows "node_bindings row ns = node_bindings row ns'"
  by (simp add: node_bindings_def ep_nodes_def opt_nodes_def assms)

lemma short_mset_eq:
  assumes "mset xs = mset ys" and "length xs \<le> 1"
  shows "xs = ys"
proof -
  have l: "length ys = length xs" using assms(1) by (metis size_mset)
  show ?thesis
  proof (cases xs)
    case Nil
    then show ?thesis using l by simp
  next
    case (Cons x rest)
    then have "rest = []" using assms(2) by simp
    then obtain y where "ys = [y]" using l Cons by (cases ys) auto
    then show ?thesis using assms(1) Cons \<open>rest = []\<close> by simp
  qed
qed

lemma unique_filters:
  assumes "mset ns = mset ns'" and "length (filter (node_key l v) ns) \<le> 1"
  shows "filter (node_key l v) ns = filter (node_key l v) ns'"
proof -
  have "mset (filter (node_key l v) ns) = mset (filter (node_key l v) ns')"
    using assms(1) by (simp only: mset_filter)
  then show ?thesis using assms(2) by (rule short_mset_eq)
qed

lemma unique_index:
  assumes "length (filter K ns) \<le> 1" and "a < length ns" and "K (ns ! a)"
    and "b < length ns" and "K (ns ! b)"
  shows "a = b"
proof -
  have "length (filter P xs) \<le> 1 \<longrightarrow> i < length xs \<longrightarrow> P (xs ! i)
      \<longrightarrow> j < length xs \<longrightarrow> P (xs ! j) \<longrightarrow> i = j" for P :: "'a \<Rightarrow> bool" and xs i j
  proof (induction xs arbitrary: i j)
    case Nil
    then show ?case by simp
  next
    case (Cons x xs)
    show ?case
    proof (cases "P x")
      case True
      show ?thesis
      proof (intro impI)
        assume one: "length (filter P (x # xs)) \<le> 1"
          and i: "i < length (x # xs)" "P ((x # xs) ! i)"
          and j: "j < length (x # xs)" "P ((x # xs) ! j)"
        have none: "\<forall>y \<in> set xs. \<not> P y" using one True by (simp add: filter_empty_conv)
        have "i = 0"
        proof (cases i)
          case 0 then show ?thesis .
        next
          case (Suc i')
          then have "xs ! i' \<in> set xs" using i(1) by simp
          then show ?thesis using none i(2) Suc by simp
        qed
        moreover have "j = 0"
        proof (cases j)
          case 0 then show ?thesis .
        next
          case (Suc j')
          then have "xs ! j' \<in> set xs" using j(1) by simp
          then show ?thesis using none j(2) Suc by simp
        qed
        ultimately show "i = j" by simp
      qed
    next
      case False
      show ?thesis
      proof (intro impI)
        assume one: "length (filter P (x # xs)) \<le> 1"
          and i: "i < length (x # xs)" "P ((x # xs) ! i)"
          and j: "j < length (x # xs)" "P ((x # xs) ! j)"
        obtain i' j' where ij: "i = Suc i'" "j = Suc j'"
          using i(2) j(2) False by (cases i; cases j) auto
        then have "i' = j'" using Cons.IH[of i' j'] one i j False by simp
        then show "i = j" using ij by simp
      qed
    qed
  qed
  then show ?thesis using assms by blast
qed

lemma merge_rel_view:
  assumes valid: "ends_valid ns rs" and ok: "bound_ok ns q"
  shows "map (rel_view ns) (merge_set rel_matches rel_assign rel_create q rs)
       = merge_set ev_matches ev_assign ev_create (lift_binding ns q) (map (rel_view ns) rs)"
    and "ends_valid ns (merge_set rel_matches rel_assign rel_create q rs)"
proof -
  obtain ty row a b where q: "q = (ty, row, a, b)" by (cases q)
  have a: "a < length ns" "\<And>i. i < length ns \<Longrightarrow> (ns ! i = ns ! a) = (i = a)"
    and b: "b < length ns" "\<And>i. i < length ns \<Longrightarrow> (ns ! i = ns ! b) = (i = b)"
    using ok q by (auto simp: bound_ok_def)
  have eq: "\<And>r. r \<in> set rs \<Longrightarrow>
      ev_matches (lift_binding ns q) (rel_view ns r) = rel_matches q r"
    using valid a(2) b(2)
    by (simp add: q ends_valid_def ev_matches_def rel_matches_def lift_binding_def rel_view_def)
  have va: "\<And>r. rel_view ns (rel_assign q r) = ev_assign (lift_binding ns q) (rel_view ns r)"
    by (simp add: q rel_assign_def ev_assign_def lift_binding_def rel_view_def)
  have vc: "rel_view ns (rel_create q) = ev_create (lift_binding ns q)"
    by (simp add: q rel_create_def ev_create_def lift_binding_def rel_view_def)
  have ex: "(\<exists>e \<in> set (map (rel_view ns) rs). ev_matches (lift_binding ns q) e)
      = (\<exists>r \<in> set rs. rel_matches q r)"
    using eq by auto
  have m: "map (rel_view ns) (map (\<lambda>r. if rel_matches q r then rel_assign q r else r) rs)
      = map (\<lambda>e. if ev_matches (lift_binding ns q) e then ev_assign (lift_binding ns q) e else e)
          (map (rel_view ns) rs)"
    using eq by (simp add: va)
  show "map (rel_view ns) (merge_set rel_matches rel_assign rel_create q rs)
       = merge_set ev_matches ev_assign ev_create (lift_binding ns q) (map (rel_view ns) rs)"
    unfolding merge_set_def ex using m by (simp add: va vc)
  show "ends_valid ns (merge_set rel_matches rel_assign rel_create q rs)"
    using valid a(1) b(1)
    by (auto simp: merge_set_def ends_valid_def q rel_assign_def rel_create_def)
qed

lemma fold_rel_view:
  "\<forall>q \<in> set bs. bound_ok ns q \<Longrightarrow> ends_valid ns rs \<Longrightarrow>
   map (rel_view ns) (fold (merge_set rel_matches rel_assign rel_create) bs rs)
     = fold (merge_set ev_matches ev_assign ev_create) (map (lift_binding ns) bs)
         (map (rel_view ns) rs)
   \<and> ends_valid ns (fold (merge_set rel_matches rel_assign rel_create) bs rs)"
proof (induction bs arbitrary: rs)
  case Nil
  then show ?case by simp
next
  case (Cons q bs)
  have ok: "bound_ok ns q" using Cons.prems(1) by simp
  note step = merge_rel_view[OF Cons.prems(2) ok]
  show ?case using Cons.IH[OF _ step(2)] Cons.prems(1) by (simp add: step(1))
qed

lemma lift_rel_binds: "map (lift_binding ns) (rel_binds ops ns) = ev_binds ops ns"
proof -
  have "\<And>op. map (lift_binding ns) (map (\<lambda>ab. (fst op, snd op, ab)) (rel_bindings (snd op) ns))
      = map (\<lambda>xy. (fst op, snd op, xy)) (node_bindings (snd op) ns)"
    by (simp add: lift_binding_def comp_def case_prod_beta flip: rel_bindings_nodes)
  then show ?thesis by (simp add: rel_binds_def ev_binds_def map_concat comp_def)
qed

lemma rel_binds_ok:
  assumes uniq: "\<forall>l v. length (filter (node_key l v) ns) \<le> 1"
  shows "\<forall>q \<in> set (rel_binds ops ns). bound_ok ns q"
proof
  fix q assume "q \<in> set (rel_binds ops ns)"
  then obtain ty row a b where q: "q = (ty, row, a, b)"
    and ab: "(a, b) \<in> set (rel_bindings row ns)"
    by (auto simp: rel_binds_def)
  from rel_bindings_resolved[OF ab] have
    a: "a < length ns" "prop_eq (n_ftm_id (ns ! a)) (rel_source_id row)"
    and b: "b < length ns" "prop_eq (n_ftm_id (ns ! b)) (rel_target_id row)"
    by simp_all
  have one: "\<And>j v. j < length ns \<Longrightarrow> prop_eq (n_ftm_id (ns ! j)) v \<Longrightarrow>
      \<forall>i < length ns. ns ! i = ns ! j \<longrightarrow> i = j"
  proof (intro allI impI)
    fix j v i
    assume j: "j < length ns" and p: "prop_eq (n_ftm_id (ns ! j)) v"
      and i: "i < length ns" and e: "ns ! i = ns ! j"
    have "node_key (n_label (ns ! j)) v (ns ! j)" using p by (simp add: node_key_def)
    moreover have "node_key (n_label (ns ! j)) v (ns ! i)" using p e by (simp add: node_key_def)
    ultimately show "i = j"
      using unique_index[of "node_key (n_label (ns ! j)) v" ns i j] uniq i j by blast
  qed
  show "bound_ok ns q"
    using a b one[OF a] one[OF b] by (simp add: q bound_ok_def)
qed

lemma rel_ops_view:
  assumes uniq: "\<forall>l v. length (filter (node_key l v) (nodes s)) \<le> 1"
    and valid: "ends_valid (nodes s) (rels s)"
  shows "map (rel_view (nodes s)) (rels (rel_ops ops s))
       = fold (merge_set ev_matches ev_assign ev_create) (ev_binds ops (nodes s))
           (map (rel_view (nodes s)) (rels s))"
  using fold_rel_view[OF rel_binds_ok[OF uniq, of ops] valid]
  by (simp add: rel_ops_rels lift_rel_binds)

lemma ev_laws: "merge_laws ev_matches ev_assign"
  by (simp add: merge_laws_def ev_matches_def ev_assign_def split: prod.splits)

lemma ev_matches_create: "rel_id (fst (snd q)) \<noteq> JNull \<Longrightarrow> ev_matches q (ev_create q)"
  by (cases q) (simp add: ev_matches_def ev_create_def prop_eq_def)

lemma ev_apart: "ev_key q1 \<noteq> ev_key q2 \<Longrightarrow> apart ev_matches q1 q2"
  by (cases q1; cases q2) (auto simp: apart_def ev_matches_def ev_key_def prop_eq_def)

lemma ev_binds_class:
  "filter (\<lambda>q. ev_key q = \<kappa>) (ev_binds ops ns) = ev_binds (filter (\<lambda>op. rel_op_key op = \<kappa>) ops) ns"
  unfolding ev_binds_def
  by (rule filter_concat_map_if) (auto simp: ev_key_def rel_op_key_def filter_empty_conv)

lemma ev_binds_ids:
  "\<forall>op \<in> set ops. rel_id (snd op) \<noteq> JNull \<Longrightarrow>
   \<forall>q \<in> set (ev_binds ops ns). rel_id (fst (snd q)) \<noteq> JNull"
  by (auto simp: ev_binds_def)

lemma import_relationships_row_key:
  assumes "import_relationships_row e = Inr (Some op)"
  shows "record_key e = (rel_type_schema (fst op), rel_id (snd op))"
proof -
  obtain ty row where op: "op = (ty, row)" by (cases op)
  have r: "to_rel_row e = Inr (Some (ty, row))"
    using assms op
    by (auto simp: import_relationships_row_def Let_def split: if_splits sum.splits option.splits)
  have "rel_id row = dict_get e ''id'' \<and> dict_get e ''schema'' = rel_type_schema ty"
    using r
    by (auto simp: to_rel_row_def Let_def rel_row_of_def rel_type_schema_def
        split: if_splits sum.splits)
  then show ?thesis by (simp add: record_key_def op)
qed

lemma rel_type_schema_inj: "(rel_type_schema l = rel_type_schema l') = (l = l')"
  by (cases l; cases l') (simp_all add: rel_type_schema_def)

lemma rel_rows_class:
  "filter (\<lambda>op. rel_op_key op = (l, v)) (rel_rows es)
     = rel_rows (filter (\<lambda>e. record_key e = (rel_type_schema l, v)) es)"
  unfolding rel_rows_def
proof (rule filter_concat_map_if)
  fix e
  show "filter (\<lambda>op. rel_op_key op = (l, v))
          (case import_relationships_row e of Inr (Some lr) \<Rightarrow> [lr] | _ \<Rightarrow> [])
      = (if record_key e = (rel_type_schema l, v)
         then (case import_relationships_row e of Inr (Some lr) \<Rightarrow> [lr] | _ \<Rightarrow> []) else [])"
  proof (cases "import_relationships_row e")
    case (Inl err)
    then show ?thesis by simp
  next
    case (Inr x)
    show ?thesis
    proof (cases x)
      case None
      then show ?thesis using Inr by simp
    next
      case (Some op)
      have "record_key e = (rel_type_schema (fst op), rel_id (snd op))"
        using import_relationships_row_key Inr Some by simp
      then show ?thesis using Inr Some
        by (auto simp: rel_op_key_def rel_type_schema_inj)
    qed
  qed
qed

lemma rel_class_by_kind:
  "filter (\<lambda>op. rel_op_key op = (l, v)) ops
     = map (Pair l) (filter (\<lambda>row. rel_id row = v) (of_kind l ops))"
  using filter_kind_and[of l "\<lambda>row. rel_id row = v" ops]
  by (simp add: rel_op_key_def prod_eq_iff)

lemma rel_classes_permuted:
  assumes rec: "\<forall>\<kappa>. filter (\<lambda>e. record_key e = \<kappa>) es = filter (\<lambda>e. record_key e = \<kappa>) es'"
    and k: "of_kind DIRECTORSHIP ops = of_kind DIRECTORSHIP (rel_rows es)"
        "of_kind OWNERSHIP ops = of_kind OWNERSHIP (rel_rows es)"
    and k': "of_kind DIRECTORSHIP ops' = of_kind DIRECTORSHIP (rel_rows es')"
        "of_kind OWNERSHIP ops' = of_kind OWNERSHIP (rel_rows es')"
  shows "\<forall>\<kappa>. filter (\<lambda>op. rel_op_key op = \<kappa>) ops = filter (\<lambda>op. rel_op_key op = \<kappa>) ops'"
proof
  fix \<kappa> :: "rel_type \<times> json"
  obtain l v where kv: "\<kappa> = (l, v)" by (cases \<kappa>)
  have a: "of_kind l ops = of_kind l (rel_rows es)" using k by (cases l) simp_all
  have a': "of_kind l ops' = of_kind l (rel_rows es')" using k' by (cases l) simp_all
  have "filter (\<lambda>op. rel_op_key op = (l, v)) ops
      = filter (\<lambda>op. rel_op_key op = (l, v)) (rel_rows es)"
    by (simp only: rel_class_by_kind a)
  also have "\<dots> = filter (\<lambda>op. rel_op_key op = (l, v)) (rel_rows es')"
    by (simp only: rel_rows_class rec[rule_format])
  also have "\<dots> = filter (\<lambda>op. rel_op_key op = (l, v)) ops'"
    by (simp only: rel_class_by_kind a')
  finally show "filter (\<lambda>op. rel_op_key op = \<kappa>) ops = filter (\<lambda>op. rel_op_key op = \<kappa>) ops'"
    using kv by simp
qed

lemma merge_set_prefix:
  "i < length xs \<Longrightarrow>
   i < length (merge_set m a c r xs) \<and> merge_set m a c r xs ! i = upd m a r (xs ! i)"
  by (auto simp: merge_set_upd nth_append upd_def)

lemma fold_merge_set_prefix:
  "i < length xs \<Longrightarrow>
   i < length (fold (merge_set m a c) rs xs)
   \<and> fold (merge_set m a c) rs xs ! i = fold (upd m a) rs (xs ! i)"
proof (induction rs arbitrary: xs)
  case Nil
  then show ?case by simp
next
  case (Cons r rs)
  from merge_set_prefix[OF Cons.prems, of m a c r]
  have s: "i < length (merge_set m a c r xs)"
    "merge_set m a c r xs ! i = upd m a r (xs ! i)" by simp_all
  show ?case using Cons.IH[OF s(1)] s(2) by simp
qed

lemma fold_upd_classes:
  assumes L: "merge_laws m a"
    and ap: "\<And>r1 r2. k r1 \<noteq> k r2 \<Longrightarrow> apart m r1 r2"
    and cl: "\<forall>\<kappa>. filter (\<lambda>q. k q = \<kappa>) rs = filter (\<lambda>q. k q = \<kappa>) rs'"
  shows "fold (upd m a) rs x = fold (upd m a) rs' x"
proof -
  have sets: "set rs = set rs'" by (rule same_classes_same_set[OF cl])
  have "find (\<lambda>r. m r x) (rev rs) = find (\<lambda>r. m r x) (rev rs')"
  proof (cases "\<exists>r \<in> set rs. m r x")
    case False
    then have "find (\<lambda>r. m r x) (rev rs) = None" "find (\<lambda>r. m r x) (rev rs') = None"
      using sets by (simp_all add: find_None_iff)
    then show ?thesis by simp
  next
    case True
    then obtain r0 where r0: "m r0 x" by blast
    have imp: "\<And>r. m r x \<Longrightarrow> k r = k r0"
      using ap r0 by (auto simp: apart_def)
    have "find (\<lambda>r. m r x) (rev rs) = find (\<lambda>r. m r x) (filter (\<lambda>r. k r = k r0) (rev rs))"
      using find_filter[of "\<lambda>r. m r x" "\<lambda>r. k r = k r0" "rev rs"] imp by simp
    also have "\<dots> = find (\<lambda>r. m r x) (filter (\<lambda>r. k r = k r0) (rev rs'))"
      using cl by (simp add: rev_filter[symmetric])
    also have "\<dots> = find (\<lambda>r. m r x) (rev rs')"
      using find_filter[of "\<lambda>r. m r x" "\<lambda>r. k r = k r0" "rev rs'"] imp by simp
    finally show ?thesis .
  qed
  then show ?thesis by (simp add: fold_upd_last[OF L])
qed

lemma node_ops_old_nodes:
  assumes cl: "\<forall>\<kappa>. filter (\<lambda>op. node_op_key op = \<kappa>) ops = filter (\<lambda>op. node_op_key op = \<kappa>) ops'"
    and i: "i < length (nodes s)"
  shows "i < length (nodes (node_ops ops s)) \<and> i < length (nodes (node_ops ops' s))
       \<and> nodes (node_ops ops s) ! i = nodes (node_ops ops' s) ! i"
proof -
  note p = fold_merge_set_prefix[OF i, of node_matches node_assign node_create]
  have "fold (upd node_matches node_assign) ops (nodes s ! i)
      = fold (upd node_matches node_assign) ops' (nodes s ! i)"
    by (rule fold_upd_classes[OF node_laws _ cl]) (rule node_apart)
  then show ?thesis using p[of ops] p[of ops'] by (simp add: node_ops_nodes)
qed

lemma same_classes_mset:
  assumes "\<forall>\<kappa>. filter (\<lambda>q. k q = \<kappa>) xs = filter (\<lambda>q. k q = \<kappa>) ys"
  shows "mset xs = mset ys"
proof (rule multiset_eqI)
  fix x
  have "count (mset xs) x = count (mset (filter (\<lambda>q. k q = k x) xs)) x" by simp
  also have "\<dots> = count (mset (filter (\<lambda>q. k q = k x) ys)) x" using assms by simp
  also have "\<dots> = count (mset ys) x" by simp
  finally show "count (mset xs) x = count (mset ys) x" .
qed

lemma mset_concat_map:
  assumes "mset xs = mset ys"
  shows "mset (concat (map f xs)) = mset (concat (map f ys))"
proof -
  have "\<And>zs. mset (concat (map f zs)) = sum_mset (image_mset (\<lambda>z. mset (f z)) (mset zs))"
  proof -
    fix zs show "mset (concat (map f zs)) = sum_mset (image_mset (\<lambda>z. mset (f z)) (mset zs))"
      by (induction zs) simp_all
  qed
  then show ?thesis using assms by simp
qed

lemma length_of_kind_mset:
  assumes "mset ops = mset ops'"
  shows "length (of_kind k ops) = length (of_kind k ops')"
proof -
  have "\<And>zs :: ('a \<times> 'b) list. length (of_kind k zs) = size (filter_mset (\<lambda>op. fst op = k) (mset zs))"
    by (simp add: of_kind_def flip: mset_filter)
  then show ?thesis using assms by simp
qed

lemma ev_binds_cong:
  assumes "\<And>l v. filter (node_key l v) ns = filter (node_key l v) ns'"
  shows "ev_binds ops ns = ev_binds ops ns'"
  using node_bindings_cong[of ns ns'] assms by (simp add: ev_binds_def)

lemma reorder_same_graph:
  assumes wf: "wf_store s"
    and rec: "\<forall>\<kappa>. filter (\<lambda>e. record_key e = \<kappa>) es = filter (\<lambda>e. record_key e = \<kappa>) es'"
    and run: "main_accepted (es, stop) bs s = Inr (s2, counts)"
  shows "\<exists>s2'. main_accepted (es', stop) bs s = Inr (s2', counts) \<and> graph_of s2' = graph_of s2"
proof -
  obtain c p d ow where counts: "counts = ((c, p), (d, ow))" by (cases counts) auto
  obtain s1 where n: "import_nodes_accepted (es, stop) bs s = Inr (s1, c, p)"
    and r: "import_relationships_accepted (es, stop) bs s1 = Inr (s2, d, ow)"
    using run counts by (auto simp: main_accepted_def split: sum.splits)
  have sets: "set es = set es'" by (rule same_classes_same_set[OF rec])
  have msets: "mset es = mset es'" by (rule same_classes_mset[OF rec])
  \<comment> \<open>the node pass\<close>
  from import_nodes_run[OF n] obtain ops where
    nrun: "\<And>t. import_nodes_accepted (es, stop) bs t = Inr (node_ops ops t, c, p)"
    and nk: "of_kind Company ops = of_kind Company (node_rows es)"
        "of_kind Person ops = of_kind Person (node_rows es)"
    and nc: "c = length (of_kind Company (node_rows es))"
        "p = length (of_kind Person (node_rows es))"
    by blast
  have "\<exists>res. import_nodes_accepted (es, stop) bs s = Inr res" using n by blast
  then have "\<exists>res. import_nodes_accepted (es', stop) bs s = Inr res"
    unfolding import_nodes_ok using sets by simp
  then obtain s1' c' p' where n': "import_nodes_accepted (es', stop) bs s = Inr (s1', c', p')"
    by (metis prod_cases3)
  from import_nodes_run[OF n'] obtain ops' where
    nrun': "\<And>t. import_nodes_accepted (es', stop) bs t = Inr (node_ops ops' t, c', p')"
    and nk': "of_kind Company ops' = of_kind Company (node_rows es')"
        "of_kind Person ops' = of_kind Person (node_rows es')"
    and nc': "c' = length (of_kind Company (node_rows es'))"
        "p' = length (of_kind Person (node_rows es'))"
    by blast
  have nrows: "mset (node_rows es) = mset (node_rows es')"
    unfolding node_rows_def by (rule mset_concat_map[OF msets])
  have cc: "c' = c" "p' = p"
    using nc nc' length_of_kind_mset[OF nrows] by simp_all
  have s1: "s1 = node_ops ops s" using n nrun[of s] by simp
  have s1': "s1' = node_ops ops' s" using n' nrun'[of s] by simp
  have "set ops = set (node_rows es)" by (rule same_kinds_same_set[OF nk])
  then have ids: "\<forall>op \<in> set ops. row_id (snd op) \<noteq> JNull"
    using node_rows_truthy truthy_not_null by blast
  have ncl: "\<forall>\<kappa>. filter (\<lambda>op. node_op_key op = \<kappa>) ops = filter (\<lambda>op. node_op_key op = \<kappa>) ops'"
    by (rule node_classes_permuted[OF rec nk nk'])
  have nodes_eq: "mset (nodes s1) = mset (nodes s1')"
    unfolding s1 s1' by (rule node_ops_permuted[OF ids ncl])
  have uniq: "\<forall>l v. length (filter (node_key l v) (nodes s1)) \<le> 1"
    using node_ops_no_duplicate[of _ _ ops s] wf unfolding s1 wf_store_def
    by (metis max.absorb1 order.trans)
  have uniq': "\<forall>l v. length (filter (node_key l v) (nodes s1')) \<le> 1"
    using node_ops_no_duplicate[of _ _ ops' s] wf unfolding s1' wf_store_def
    by (metis max.absorb1 order.trans)
  have rs1: "rels s1 = rels s" "rels s1' = rels s"
    unfolding s1 s1' by (rule rels_node_ops)+
  have old: "\<And>i. i < length (nodes s) \<Longrightarrow>
      i < length (nodes s1) \<and> i < length (nodes s1') \<and> nodes s1 ! i = nodes s1' ! i"
    unfolding s1 s1' by (rule node_ops_old_nodes[OF ncl])
  have valid: "ends_valid (nodes s1) (rels s1)" "ends_valid (nodes s1') (rels s1')"
    using wf old unfolding rs1 by (auto simp: ends_valid_def wf_store_def)
  have E0: "map (rel_view (nodes s1)) (rels s) = map (rel_view (nodes s1')) (rels s)"
    using wf old by (auto simp: rel_view_def wf_store_def)
  \<comment> \<open>the relationship pass\<close>
  from import_relationships_run[OF r] obtain rops where
    rrun: "\<And>t. import_relationships_accepted (es, stop) bs t = Inr (rel_ops rops t, d, ow)"
    and rk: "of_kind DIRECTORSHIP rops = of_kind DIRECTORSHIP (rel_rows es)"
        "of_kind OWNERSHIP rops = of_kind OWNERSHIP (rel_rows es)"
    and rc: "d = length (of_kind DIRECTORSHIP (rel_rows es))"
        "ow = length (of_kind OWNERSHIP (rel_rows es))"
    by blast
  have "\<exists>res. import_relationships_accepted (es, stop) bs s1 = Inr res" using r by blast
  then have "\<exists>res. import_relationships_accepted (es', stop) bs s1' = Inr res"
    unfolding import_relationships_ok using sets by simp
  then obtain s2' d' ow' where r': "import_relationships_accepted (es', stop) bs s1' = Inr (s2', d', ow')"
    by (metis prod_cases3)
  from import_relationships_run[OF r'] obtain rops' where
    rrun': "\<And>t. import_relationships_accepted (es', stop) bs t = Inr (rel_ops rops' t, d', ow')"
    and rk': "of_kind DIRECTORSHIP rops' = of_kind DIRECTORSHIP (rel_rows es')"
        "of_kind OWNERSHIP rops' = of_kind OWNERSHIP (rel_rows es')"
    and rc': "d' = length (of_kind DIRECTORSHIP (rel_rows es'))"
        "ow' = length (of_kind OWNERSHIP (rel_rows es'))"
    by blast
  have rrows: "mset (rel_rows es) = mset (rel_rows es')"
    unfolding rel_rows_def by (rule mset_concat_map[OF msets])
  have dd: "d' = d" "ow' = ow"
    using rc rc' length_of_kind_mset[OF rrows] by simp_all
  have s2: "s2 = rel_ops rops s1" using r rrun[of s1] by simp
  have s2': "s2' = rel_ops rops' s1'" using r' rrun'[of s1'] by simp
  have "set rops = set (rel_rows es)" by (rule same_types_same_set[OF rk])
  then have rids: "\<forall>op \<in> set rops. rel_id (snd op) \<noteq> JNull"
    using rel_rows_truthy truthy_not_null by blast
  have rcl: "\<forall>\<kappa>. filter (\<lambda>op. rel_op_key op = \<kappa>) rops = filter (\<lambda>op. rel_op_key op = \<kappa>) rops'"
    by (rule rel_classes_permuted[OF rec rk rk'])
  have binds': "ev_binds rops' (nodes s1') = ev_binds rops' (nodes s1)"
    by (rule ev_binds_cong) (rule unique_filters[OF nodes_eq[symmetric] uniq'[rule_format]])
  have v: "map (rel_view (nodes s1)) (rels s2)
      = fold (merge_set ev_matches ev_assign ev_create) (ev_binds rops (nodes s1))
          (map (rel_view (nodes s1)) (rels s))"
    unfolding s2 using rel_ops_view[OF uniq valid(1), of rops] by (simp only: rs1)
  have v': "map (rel_view (nodes s1')) (rels s2')
      = fold (merge_set ev_matches ev_assign ev_create) (ev_binds rops' (nodes s1))
          (map (rel_view (nodes s1)) (rels s))"
    unfolding s2' using rel_ops_view[OF uniq' valid(2), of rops'] by (simp only: rs1 binds' E0)
  have c3: "\<forall>q \<in> set (ev_binds rops (nodes s1)). ev_matches q (ev_create q)"
    using ev_binds_ids[OF rids] ev_matches_create by blast
  have ecl: "\<forall>\<kappa>. filter (\<lambda>q. ev_key q = \<kappa>) (ev_binds rops (nodes s1))
      = filter (\<lambda>q. ev_key q = \<kappa>) (ev_binds rops' (nodes s1))"
    using rcl by (simp add: ev_binds_class)
  have "fold (merge_mset ev_matches ev_assign ev_create) (ev_binds rops (nodes s1))
          (mset (map (rel_view (nodes s1)) (rels s)))
      = fold (merge_mset ev_matches ev_assign ev_create) (ev_binds rops' (nodes s1))
          (mset (map (rel_view (nodes s1)) (rels s)))"
    using fold_merge_mset_classes[OF ev_laws, of ev_key "ev_binds rops (nodes s1)" ev_create
        "ev_binds rops' (nodes s1)"] ev_apart c3 ecl by blast
  then have edges_eq: "mset (map (rel_view (nodes s1)) (rels s2))
      = mset (map (rel_view (nodes s1')) (rels s2'))"
    unfolding v v' by (simp only: mset_fold_merge_set)
  have ns2: "nodes s2 = nodes s1" "nodes s2' = nodes s1'"
    unfolding s2 s2' by (rule nodes_rel_ops)+
  have "graph_of s2' = graph_of s2"
    using nodes_eq edges_eq by (simp add: graph_of_def ns2)
  moreover have "main_accepted (es', stop) bs s = Inr (s2', counts)"
    using n' r' cc dd counts by (simp add: main_accepted_def)
  ultimately show ?thesis by blast
qed

lemma encodable_permuted:
  assumes "\<forall>\<kappa>. filter (\<lambda>e. record_key e = \<kappa>) es = filter (\<lambda>e. record_key e = \<kappa>) es'"
  shows "encodable es = encodable es'"
proof -
  have msets: "mset es = mset es'" by (rule same_classes_mset[OF assms])
  have "mset (node_rows es) = mset (node_rows es')"
    unfolding node_rows_def by (rule mset_concat_map[OF msets])
  then have n: "set (node_rows es) = set (node_rows es')" by (rule mset_eq_setD)
  have "mset (rel_rows es) = mset (rel_rows es')"
    unfolding rel_rows_def by (rule mset_concat_map[OF msets])
  then have r: "set (rel_rows es) = set (rel_rows es')" by (rule mset_eq_setD)
  show ?thesis by (simp add: encodable_def n r)
qed

lemma reorder_same_graph_run:
  assumes wf: "wf_store s"
    and rec: "\<forall>\<kappa>. filter (\<lambda>e. record_key e = \<kappa>) es = filter (\<lambda>e. record_key e = \<kappa>) es'"
    and run: "main (es, stop) bs s = Inr (s2, counts)"
  shows "\<exists>s2'. main (es', stop) bs s = Inr (s2', counts) \<and> graph_of s2' = graph_of s2"
proof -
  have acc: "main_accepted (es, stop) bs s = Inr (s2, counts)" and enc: "encodable es"
    using main_Inr[OF run] by simp_all
  have "encodable es'" using enc encodable_permuted[OF rec] by simp
  then have "main (es', stop) bs s = main_accepted (es', stop) bs s" by (rule main_encodable)
  then show ?thesis using reorder_same_graph[OF wf rec acc] by simp
qed

text \<open>
  C7, as stated, fails: the two inputs below are permutations of each other and every
  identifier an edge record refers to has a node record, yet the two runs end in
  different graphs: two Company records share the identifier C1, and the name of the
  later one stays.
\<close>

theorem permuted_duplicates_differ:
  "mset [[(''id'', JStr ''P1''), (''schema'', JStr ''Person'')],
         [(''id'', JStr ''C1''), (''schema'', JStr ''Company''),
          (''properties'', JObj [(''name'', JList [JStr ''Acme''])])],
         [(''id'', JStr ''C1''), (''schema'', JStr ''Company''),
          (''properties'', JObj [(''name'', JList [JStr ''Apex''])])],
         [(''id'', JStr ''D1''), (''schema'', JStr ''Directorship''),
          (''properties'', JObj [(''director'', JList [JStr ''P1'']),
                                 (''organization'', JList [JStr ''C1''])])]]
   = mset [[(''id'', JStr ''P1''), (''schema'', JStr ''Person'')],
         [(''id'', JStr ''C1''), (''schema'', JStr ''Company''),
          (''properties'', JObj [(''name'', JList [JStr ''Apex''])])],
         [(''id'', JStr ''C1''), (''schema'', JStr ''Company''),
          (''properties'', JObj [(''name'', JList [JStr ''Acme''])])],
         [(''id'', JStr ''D1''), (''schema'', JStr ''Directorship''),
          (''properties'', JObj [(''director'', JList [JStr ''P1'']),
                                 (''organization'', JList [JStr ''C1''])])]]
   \<and> main ([[(''id'', JStr ''P1''), (''schema'', JStr ''Person'')],
         [(''id'', JStr ''C1''), (''schema'', JStr ''Company''),
          (''properties'', JObj [(''name'', JList [JStr ''Acme''])])],
         [(''id'', JStr ''C1''), (''schema'', JStr ''Company''),
          (''properties'', JObj [(''name'', JList [JStr ''Apex''])])],
         [(''id'', JStr ''D1''), (''schema'', JStr ''Directorship''),
          (''properties'', JObj [(''director'', JList [JStr ''P1'']),
                                 (''organization'', JList [JStr ''C1''])])]], None)
        5000 \<lparr> nodes = [], rels = [] \<rparr>
     = Inr (\<lparr> nodes =
               [\<lparr> n_label = Company, n_ftm_id = JStr ''C1'', n_schema = JStr ''Company'',
                  n_name = JStr ''Apex'', n_datasets = JList [], n_modified_at = JNull \<rparr>,
                \<lparr> n_label = Person, n_ftm_id = JStr ''P1'', n_schema = JStr ''Person'',
                  n_name = JNull, n_datasets = JList [], n_modified_at = JNull \<rparr>],
             rels =
               [\<lparr> r_type = DIRECTORSHIP, r_src = 1, r_tgt = 0, r_ftm_id = JStr ''D1'',
                  r_schema = JStr ''Directorship'', r_datasets = JList [],
                  r_modified_at = JNull \<rparr>] \<rparr>,
            (2, 1), (1, 0))
   \<and> main ([[(''id'', JStr ''P1''), (''schema'', JStr ''Person'')],
         [(''id'', JStr ''C1''), (''schema'', JStr ''Company''),
          (''properties'', JObj [(''name'', JList [JStr ''Apex''])])],
         [(''id'', JStr ''C1''), (''schema'', JStr ''Company''),
          (''properties'', JObj [(''name'', JList [JStr ''Acme''])])],
         [(''id'', JStr ''D1''), (''schema'', JStr ''Directorship''),
          (''properties'', JObj [(''director'', JList [JStr ''P1'']),
                                 (''organization'', JList [JStr ''C1''])])]], None)
        5000 \<lparr> nodes = [], rels = [] \<rparr>
     = Inr (\<lparr> nodes =
               [\<lparr> n_label = Company, n_ftm_id = JStr ''C1'', n_schema = JStr ''Company'',
                  n_name = JStr ''Acme'', n_datasets = JList [], n_modified_at = JNull \<rparr>,
                \<lparr> n_label = Person, n_ftm_id = JStr ''P1'', n_schema = JStr ''Person'',
                  n_name = JNull, n_datasets = JList [], n_modified_at = JNull \<rparr>],
             rels =
               [\<lparr> r_type = DIRECTORSHIP, r_src = 1, r_tgt = 0, r_ftm_id = JStr ''D1'',
                  r_schema = JStr ''Directorship'', r_datasets = JList [],
                  r_modified_at = JNull \<rparr>] \<rparr>,
            (2, 1), (1, 0))
   \<and> graph_of \<lparr> nodes =
               [\<lparr> n_label = Company, n_ftm_id = JStr ''C1'', n_schema = JStr ''Company'',
                  n_name = JStr ''Apex'', n_datasets = JList [], n_modified_at = JNull \<rparr>,
                \<lparr> n_label = Person, n_ftm_id = JStr ''P1'', n_schema = JStr ''Person'',
                  n_name = JNull, n_datasets = JList [], n_modified_at = JNull \<rparr>],
             rels =
               [\<lparr> r_type = DIRECTORSHIP, r_src = 1, r_tgt = 0, r_ftm_id = JStr ''D1'',
                  r_schema = JStr ''Directorship'', r_datasets = JList [],
                  r_modified_at = JNull \<rparr>] \<rparr>
     \<noteq> graph_of \<lparr> nodes =
               [\<lparr> n_label = Company, n_ftm_id = JStr ''C1'', n_schema = JStr ''Company'',
                  n_name = JStr ''Acme'', n_datasets = JList [], n_modified_at = JNull \<rparr>,
                \<lparr> n_label = Person, n_ftm_id = JStr ''P1'', n_schema = JStr ''Person'',
                  n_name = JNull, n_datasets = JList [], n_modified_at = JNull \<rparr>],
             rels =
               [\<lparr> r_type = DIRECTORSHIP, r_src = 1, r_tgt = 0, r_ftm_id = JStr ''D1'',
                  r_schema = JStr ''Directorship'', r_datasets = JList [],
                  r_modified_at = JNull \<rparr>] \<rparr>"
  by code_simp

text \<open>
  C7, amended. Two inputs that have the same Company and Person records in the same
  relative order, and the same Directorship and Ownership records in the same relative
  order, give the same outcome from every store (the same final store and counts, or
  the same exception), however node, edge and other records are interleaved. And for
  every permutation of the input that keeps the records sharing a schema and
  identifier in their relative order, a run from a store without duplicate nodes that
  completes on the one input completes on the other, with the same counts and the
  same graph: the same nodes and the same relationships between the same nodes with
  the same attributes, their order in the store left aside. Whether the nodes an edge
  refers to are in the input plays no part.
\<close>

theorem record_order_independent:
  "(filter node_schema es = filter node_schema es' \<and> filter edge_schema es = filter edge_schema es'
      \<longrightarrow> main (es, stop) bs s = main (es', stop) bs s)
   \<and> (wf_store s
       \<and> (\<forall>\<kappa>. filter (\<lambda>e. record_key e = \<kappa>) es = filter (\<lambda>e. record_key e = \<kappa>) es')
       \<and> main (es, stop) bs s = Inr (s2, counts)
      \<longrightarrow> (\<exists>s2'. main (es', stop) bs s = Inr (s2', counts) \<and> graph_of s2' = graph_of s2))"
  using interleaving_same_outcome[of es es' stop bs s] reorder_same_graph_run[of s es es' stop bs s2 counts]
  by blast

theorem record_order_independent_witness:
  "main ([[(''id'', JStr ''D1''), (''schema'', JStr ''Directorship''),
           (''properties'', JObj [(''director'', JList [JStr ''P1'']),
                                  (''organization'', JList [JStr ''C1''])])],
          [(''id'', JStr ''C1''), (''schema'', JStr ''Company'')],
          [(''id'', JStr ''X1''), (''schema'', JStr ''Address'')],
          [(''id'', JStr ''C2''), (''schema'', JStr ''Company'')],
          [(''id'', JStr ''P1''), (''schema'', JStr ''Person'')]], None)
        5000 \<lparr> nodes = [], rels = [] \<rparr>
   = main ([[(''id'', JStr ''C1''), (''schema'', JStr ''Company'')],
          [(''id'', JStr ''C2''), (''schema'', JStr ''Company'')],
          [(''id'', JStr ''P1''), (''schema'', JStr ''Person'')],
          [(''id'', JStr ''X1''), (''schema'', JStr ''Address'')],
          [(''id'', JStr ''D1''), (''schema'', JStr ''Directorship''),
           (''properties'', JObj [(''director'', JList [JStr ''P1'']),
                                  (''organization'', JList [JStr ''C1''])])]], None)
        5000 \<lparr> nodes = [], rels = [] \<rparr>
   \<and> main ([[(''id'', JStr ''C1''), (''schema'', JStr ''Company'')],
          [(''id'', JStr ''C2''), (''schema'', JStr ''Company'')],
          [(''id'', JStr ''P1''), (''schema'', JStr ''Person'')],
          [(''id'', JStr ''D1''), (''schema'', JStr ''Directorship''),
           (''properties'', JObj [(''director'', JList [JStr ''P1'']),
                                  (''organization'', JList [JStr ''C1''])])]], None)
        5000 \<lparr> nodes = [], rels = [] \<rparr>
     = Inr (\<lparr> nodes =
               [\<lparr> n_label = Company, n_ftm_id = JStr ''C1'', n_schema = JStr ''Company'',
                  n_name = JNull, n_datasets = JList [], n_modified_at = JNull \<rparr>,
                \<lparr> n_label = Company, n_ftm_id = JStr ''C2'', n_schema = JStr ''Company'',
                  n_name = JNull, n_datasets = JList [], n_modified_at = JNull \<rparr>,
                \<lparr> n_label = Person, n_ftm_id = JStr ''P1'', n_schema = JStr ''Person'',
                  n_name = JNull, n_datasets = JList [], n_modified_at = JNull \<rparr>],
             rels =
               [\<lparr> r_type = DIRECTORSHIP, r_src = 2, r_tgt = 0, r_ftm_id = JStr ''D1'',
                  r_schema = JStr ''Directorship'', r_datasets = JList [],
                  r_modified_at = JNull \<rparr>] \<rparr>,
            (2, 1), (1, 0))
   \<and> main ([[(''id'', JStr ''D1''), (''schema'', JStr ''Directorship''),
           (''properties'', JObj [(''director'', JList [JStr ''P1'']),
                                  (''organization'', JList [JStr ''C1''])])],
          [(''id'', JStr ''P1''), (''schema'', JStr ''Person'')],
          [(''id'', JStr ''C2''), (''schema'', JStr ''Company'')],
          [(''id'', JStr ''C1''), (''schema'', JStr ''Company'')]], None)
        5000 \<lparr> nodes = [], rels = [] \<rparr>
     = Inr (\<lparr> nodes =
               [\<lparr> n_label = Company, n_ftm_id = JStr ''C2'', n_schema = JStr ''Company'',
                  n_name = JNull, n_datasets = JList [], n_modified_at = JNull \<rparr>,
                \<lparr> n_label = Company, n_ftm_id = JStr ''C1'', n_schema = JStr ''Company'',
                  n_name = JNull, n_datasets = JList [], n_modified_at = JNull \<rparr>,
                \<lparr> n_label = Person, n_ftm_id = JStr ''P1'', n_schema = JStr ''Person'',
                  n_name = JNull, n_datasets = JList [], n_modified_at = JNull \<rparr>],
             rels =
               [\<lparr> r_type = DIRECTORSHIP, r_src = 2, r_tgt = 1, r_ftm_id = JStr ''D1'',
                  r_schema = JStr ''Directorship'', r_datasets = JList [],
                  r_modified_at = JNull \<rparr>] \<rparr>,
            (2, 1), (1, 0))
   \<and> graph_of \<lparr> nodes =
               [\<lparr> n_label = Company, n_ftm_id = JStr ''C2'', n_schema = JStr ''Company'',
                  n_name = JNull, n_datasets = JList [], n_modified_at = JNull \<rparr>,
                \<lparr> n_label = Company, n_ftm_id = JStr ''C1'', n_schema = JStr ''Company'',
                  n_name = JNull, n_datasets = JList [], n_modified_at = JNull \<rparr>,
                \<lparr> n_label = Person, n_ftm_id = JStr ''P1'', n_schema = JStr ''Person'',
                  n_name = JNull, n_datasets = JList [], n_modified_at = JNull \<rparr>],
             rels =
               [\<lparr> r_type = DIRECTORSHIP, r_src = 2, r_tgt = 1, r_ftm_id = JStr ''D1'',
                  r_schema = JStr ''Directorship'', r_datasets = JList [],
                  r_modified_at = JNull \<rparr>] \<rparr>
     = graph_of \<lparr> nodes =
               [\<lparr> n_label = Company, n_ftm_id = JStr ''C1'', n_schema = JStr ''Company'',
                  n_name = JNull, n_datasets = JList [], n_modified_at = JNull \<rparr>,
                \<lparr> n_label = Company, n_ftm_id = JStr ''C2'', n_schema = JStr ''Company'',
                  n_name = JNull, n_datasets = JList [], n_modified_at = JNull \<rparr>,
                \<lparr> n_label = Person, n_ftm_id = JStr ''P1'', n_schema = JStr ''Person'',
                  n_name = JNull, n_datasets = JList [], n_modified_at = JNull \<rparr>],
             rels =
               [\<lparr> r_type = DIRECTORSHIP, r_src = 2, r_tgt = 0, r_ftm_id = JStr ''D1'',
                  r_schema = JStr ''Directorship'', r_datasets = JList [],
                  r_modified_at = JNull \<rparr>] \<rparr>"
proof -
  let ?c1 = "[(''id'', JStr ''C1''), (''schema'', JStr ''Company'')]"
  let ?c2 = "[(''id'', JStr ''C2''), (''schema'', JStr ''Company'')]"
  let ?p1 = "[(''id'', JStr ''P1''), (''schema'', JStr ''Person'')]"
  let ?x1 = "[(''id'', JStr ''X1''), (''schema'', JStr ''Address'')]"
  let ?d1 = "[(''id'', JStr ''D1''), (''schema'', JStr ''Directorship''),
           (''properties'', JObj [(''director'', JList [JStr ''P1'']),
                                  (''organization'', JList [JStr ''C1''])])]"
  let ?s0 = "\<lparr> nodes = [], rels = [] \<rparr>"
  let ?s2 = "\<lparr> nodes =
               [\<lparr> n_label = Company, n_ftm_id = JStr ''C1'', n_schema = JStr ''Company'',
                  n_name = JNull, n_datasets = JList [], n_modified_at = JNull \<rparr>,
                \<lparr> n_label = Company, n_ftm_id = JStr ''C2'', n_schema = JStr ''Company'',
                  n_name = JNull, n_datasets = JList [], n_modified_at = JNull \<rparr>,
                \<lparr> n_label = Person, n_ftm_id = JStr ''P1'', n_schema = JStr ''Person'',
                  n_name = JNull, n_datasets = JList [], n_modified_at = JNull \<rparr>],
             rels =
               [\<lparr> r_type = DIRECTORSHIP, r_src = 2, r_tgt = 0, r_ftm_id = JStr ''D1'',
                  r_schema = JStr ''Directorship'', r_datasets = JList [],
                  r_modified_at = JNull \<rparr>] \<rparr>"
  let ?s2' = "\<lparr> nodes =
               [\<lparr> n_label = Company, n_ftm_id = JStr ''C2'', n_schema = JStr ''Company'',
                  n_name = JNull, n_datasets = JList [], n_modified_at = JNull \<rparr>,
                \<lparr> n_label = Company, n_ftm_id = JStr ''C1'', n_schema = JStr ''Company'',
                  n_name = JNull, n_datasets = JList [], n_modified_at = JNull \<rparr>,
                \<lparr> n_label = Person, n_ftm_id = JStr ''P1'', n_schema = JStr ''Person'',
                  n_name = JNull, n_datasets = JList [], n_modified_at = JNull \<rparr>],
             rels =
               [\<lparr> r_type = DIRECTORSHIP, r_src = 2, r_tgt = 1, r_ftm_id = JStr ''D1'',
                  r_schema = JStr ''Directorship'', r_datasets = JList [],
                  r_modified_at = JNull \<rparr>] \<rparr>"
  have a: "main ([?d1, ?c1, ?x1, ?c2, ?p1], None) 5000 ?s0
      = main ([?c1, ?c2, ?p1, ?x1, ?d1], None) 5000 ?s0"
    using record_order_independent[of "[?d1, ?c1, ?x1, ?c2, ?p1]" "[?c1, ?c2, ?p1, ?x1, ?d1]"
        None 5000 ?s0]
    by (simp add: node_schema_def edge_schema_def dict_get_def)
  have h: "main ([?c1, ?c2, ?p1, ?d1], None) 5000 ?s0 = Inr (?s2, (2, 1), (1, 0))"
    by code_simp
  have h': "main ([?d1, ?p1, ?c2, ?c1], None) 5000 ?s0 = Inr (?s2', (2, 1), (1, 0))"
    by code_simp
  have wf: "wf_store ?s0" by (simp add: wf_store_def)
  have cl: "\<forall>\<kappa>. filter (\<lambda>e. record_key e = \<kappa>) [?c1, ?c2, ?p1, ?d1]
      = filter (\<lambda>e. record_key e = \<kappa>) [?d1, ?p1, ?c2, ?c1]"
    by (auto simp: record_key_def dict_get_def)
  have "\<exists>s2'. main ([?d1, ?p1, ?c2, ?c1], None) 5000 ?s0 = Inr (s2', (2, 1), (1, 0))
      \<and> graph_of s2' = graph_of ?s2"
    using record_order_independent[of "[?c1, ?c2, ?p1, ?d1]" "[?d1, ?p1, ?c2, ?c1]" None 5000 ?s0
        ?s2 "((2, 1), (1, 0))"] wf cl h by blast
  then have g: "graph_of ?s2' = graph_of ?s2" using h' by simp
  from a h h' g show ?thesis by (intro conjI)
qed

end
